theory Spec2Isabelle
  imports Complex_Main "HOL-Library.AList" "HOL-Library.Char_ord" "HOL-Library.List_Lexorder"
begin

section \<open>Flight delay report: the streaming aggregation core\<close>

text \<open>
  A shallow embedding of \<^verbatim>\<open>analysis/generate_flight_delay_report.py\<close>: the column
  resolver, the chunk normaliser, the additive merge into the running tables and the
  derivation of the ratio metrics.

  The program works on pandas values. The embedding represents them as follows.
  \<^item> A cell of a DataFrame is a \<open>cell\<close>. \<open>Number r\<close> is a cell that pandas reads as the
    number \<open>r\<close> (an int64 or float64 value, or text that \<^verbatim>\<open>to_numeric\<close> parses to \<open>r\<close>);
    \<open>Text s\<close> is text that \<^verbatim>\<open>to_numeric\<close> does not parse; \<open>Stamp y m d\<close> is a cell that
    \<^verbatim>\<open>to_datetime\<close> reads as that day; \<open>Period y m\<close> is a monthly period; \<open>Flag b\<close> is a
    boolean; \<open>Blank\<close> is the missing value (NaN, NaT, None).
  \<^item> A string is a list of characters with code points below 256, one \<open>char\<close> for each code
    point; text with other characters is not represented.
  \<^item> Finite floats are exact rationals: rounding and overflow are not represented. NaN is
    represented (\<open>Blank\<close> in a frame, \<open>None\<close> in a Python float). The input holds no
    infinity; the infinite quotient of a division by zero is represented, in the frames of
    metrics (\<open>mcell\<close> below).
  \<^item> A DataFrame is its list of column names and its list of rows, a row being a map from
    column name to cell; a Series is a list of cells.
  \<^item> A Python dict whose order is never observed (a Metric Record) is a map; the running
    tables, which are iterated, are association lists in insertion order.
\<close>

subsection \<open>Values\<close>

datatype cell = Flag bool | Number rat | Text string | Stamp nat nat nat | Period nat nat | Blank

datatype pyval = PyInt int | PyFloat "rat option"

datatype error = ValueError | KeyError

record dataframe =
  columns :: "string list"
  records :: "(string \<rightharpoonup> cell) list"

type_synonym stats = "string \<rightharpoonup> pyval"

type_synonym table = "(cell list \<times> stats) list"

text \<open>
  The frames that \<open>finalize_table\<close> builds and \<open>enrich_metrics\<close> extends hold the cells
  above and the results of float division, which can be infinite: \<open>Infinite True\<close> is
  \<^verbatim>\<open>inf\<close> and \<open>Infinite False\<close> is \<^verbatim>\<open>-inf\<close>.
\<close>

datatype mcell = Plain cell | Infinite bool

record metric_frame =
  mcolumns :: "string list"
  mrecords :: "(string \<rightharpoonup> mcell) list"

subsection \<open>Static configuration\<close>

definition DELAY_CAUSE_COLUMNS :: "(string \<times> string) list" where
  "DELAY_CAUSE_COLUMNS =
    [(''CARRIER_DELAY'', ''carrier_delay_sum''),
     (''WEATHER_DELAY'', ''weather_delay_sum''),
     (''NAS_DELAY'', ''nas_delay_sum''),
     (''SECURITY_DELAY'', ''security_delay_sum''),
     (''LATE_AIRCRAFT_DELAY'', ''late_aircraft_delay_sum'')]"

definition COLUMN_ALIASES :: "(string \<times> string list) list" where
  "COLUMN_ALIASES =
    [(''FL_DATE'', [''FL_DATE'', ''FlightDate'']),
     (''OP_CARRIER'',
        [''OP_CARRIER'', ''IATA_Code_Marketing_Airline'', ''Marketing_Airline_Network'',
         ''IATA_Code_Operating_Airline'', ''Operating_Airline'', ''Operating_Airline '']),
     (''OP_UNIQUE_CARRIER'',
        [''OP_UNIQUE_CARRIER'', ''DOT_ID_Marketing_Airline'', ''DOT_ID_Operating_Airline'']),
     (''ORIGIN'', [''ORIGIN'', ''Origin'']),
     (''DEST'', [''DEST'', ''Dest'']),
     (''ARR_DELAY'', [''ARR_DELAY'', ''ArrDelay'', ''ArrDelayMinutes'']),
     (''DEP_DELAY'', [''DEP_DELAY'', ''DepDelay'', ''DepDelayMinutes'']),
     (''CANCELLED'', [''CANCELLED'', ''Cancelled'']),
     (''DIVERTED'', [''DIVERTED'', ''Diverted'']),
     (''CARRIER_DELAY'', [''CARRIER_DELAY'', ''CarrierDelay'']),
     (''WEATHER_DELAY'', [''WEATHER_DELAY'', ''WeatherDelay'']),
     (''NAS_DELAY'', [''NAS_DELAY'', ''NASDelay'']),
     (''SECURITY_DELAY'', [''SECURITY_DELAY'', ''SecurityDelay'']),
     (''LATE_AIRCRAFT_DELAY'', [''LATE_AIRCRAFT_DELAY'', ''LateAircraftDelay''])]"

definition BASE_METRIC_FIELDS :: "string list" where
  "BASE_METRIC_FIELDS =
    [''flights'', ''arr_delay_sum'', ''arr_delay_count'', ''arr_delay_over_15'',
     ''dep_delay_sum'', ''dep_delay_count'', ''dep_delay_over_15'',
     ''cancelled'', ''diverted'']"

definition METRIC_FIELDS :: "string list" where
  "METRIC_FIELDS = BASE_METRIC_FIELDS @ map snd DELAY_CAUSE_COLUMNS"

definition COUNT_FIELDS :: "string set" where
  "COUNT_FIELDS =
    {''flights'', ''arr_delay_count'', ''arr_delay_over_15'', ''dep_delay_count'',
     ''dep_delay_over_15'', ''cancelled'', ''diverted''}"

definition SUM_FIELDS :: "string set" where
  "SUM_FIELDS = set METRIC_FIELDS - COUNT_FIELDS"

text \<open>\<open>COLUMN_TO_METRICS\<close> after the module-level loop that adds one entry per delay cause.\<close>

definition COLUMN_TO_METRICS :: "(string \<times> string set) list" where
  "COLUMN_TO_METRICS =
    [(''ARR_DELAY'', {''arr_delay_sum'', ''arr_delay_count'', ''arr_delay_over_15''}),
     (''DEP_DELAY'', {''dep_delay_sum'', ''dep_delay_count'', ''dep_delay_over_15''}),
     (''CANCELLED'', {''cancelled''}),
     (''DIVERTED'', {''diverted''})]
    @ map (\<lambda>(source_col, target_field). (source_col, {target_field})) DELAY_CAUSE_COLUMNS"

definition DESIRED_COLUMNS :: "string list" where
  "DESIRED_COLUMNS =
    [''FL_DATE'', ''OP_CARRIER'', ''OP_UNIQUE_CARRIER'', ''ORIGIN'', ''DEST'',
     ''ARR_DELAY'', ''DEP_DELAY'', ''CANCELLED'', ''DIVERTED'']
    @ map fst DELAY_CAUSE_COLUMNS"

subsection \<open>The pandas and Python operations the program uses\<close>

fun isna :: "cell \<Rightarrow> bool" where
  "isna Blank = True"
| "isna _ = False"

text \<open>Reading a row at a column name; a record without the key yields NaN in a frame.\<close>

definition cell_at :: "(string \<rightharpoonup> cell) \<Rightarrow> string \<Rightarrow> cell" where
  "cell_at r c = (case r c of Some v \<Rightarrow> v | None \<Rightarrow> Blank)"

definition col :: "dataframe \<Rightarrow> string \<Rightarrow> cell list" where
  "col df c = map (\<lambda>r. cell_at r c) (records df)"

text \<open>
  \<^verbatim>\<open>df[c] = values\<close>: an existing column keeps its place, a new one is appended. Every
  call in the program passes a series computed elementwise from columns of the same frame,
  so the lengths agree.
\<close>

definition assign :: "dataframe \<Rightarrow> string \<Rightarrow> cell list \<Rightarrow> dataframe" where
  "assign df c vs =
    \<lparr>columns = (if c \<in> set (columns df) then columns df else columns df @ [c]),
     records = map (\<lambda>(r, v). r(c \<mapsto> v)) (zip (records df) vs)\<rparr>"

definition empty_df :: "'a dataframe_scheme \<Rightarrow> bool" where
  "empty_df df = (columns df = [] \<or> records df = [])"

text \<open>The same operations on a frame of metrics.\<close>

definition mcell_at :: "(string \<rightharpoonup> mcell) \<Rightarrow> string \<Rightarrow> mcell" where
  "mcell_at r c = (case r c of Some v \<Rightarrow> v | None \<Rightarrow> Plain Blank)"

definition mcol :: "metric_frame \<Rightarrow> string \<Rightarrow> mcell list" where
  "mcol df c = map (\<lambda>r. mcell_at r c) (mrecords df)"

definition massign :: "metric_frame \<Rightarrow> string \<Rightarrow> mcell list \<Rightarrow> metric_frame" where
  "massign df c vs =
    \<lparr>mcolumns = (if c \<in> set (mcolumns df) then mcolumns df else mcolumns df @ [c]),
     mrecords = map (\<lambda>(r, v). r(c \<mapsto> v)) (zip (mrecords df) vs)\<rparr>"

definition mempty :: "metric_frame \<Rightarrow> bool" where
  "mempty df = (mcolumns df = [] \<or> mrecords df = [])"

definition dropna :: "string \<Rightarrow> dataframe \<Rightarrow> dataframe" where
  "dropna c df = df\<lparr>records := filter (\<lambda>r. \<not> isna (cell_at r c)) (records df)\<rparr>"

text \<open>\<^verbatim>\<open>pd.to_numeric(series, errors="coerce")\<close>: a float series, \<open>None\<close> for NaN.\<close>

fun coerce_numeric :: "cell \<Rightarrow> rat option" where
  "coerce_numeric (Number r) = Some r"
| "coerce_numeric (Flag b) = Some (if b then 1 else 0)"
| "coerce_numeric _ = None"

definition to_numeric :: "cell list \<Rightarrow> rat option list" where
  "to_numeric series = map coerce_numeric series"

text \<open>\<^verbatim>\<open>pd.to_datetime(series, errors="coerce")\<close>.\<close>

fun coerce_datetime :: "cell \<Rightarrow> cell" where
  "coerce_datetime (Stamp y m d) = Stamp y m d"
| "coerce_datetime _ = Blank"

definition to_datetime :: "cell list \<Rightarrow> cell list" where
  "to_datetime series = map coerce_datetime series"

text \<open>\<^verbatim>\<open>series.dt.to_period("M")\<close> on a datetime series.\<close>

fun to_period_M :: "cell \<Rightarrow> cell" where
  "to_period_M (Stamp y m d) = Period y m"
| "to_period_M _ = Blank"

definition fillna :: "rat \<Rightarrow> rat option list \<Rightarrow> rat list" where
  "fillna d series = map (\<lambda>v. case v of Some r \<Rightarrow> r | None \<Rightarrow> d) series"

text \<open>Python's \<^verbatim>\<open>int(x)\<close> of a float truncates towards zero; its integers are unbounded.\<close>

definition py_trunc :: "rat \<Rightarrow> int" where
  "py_trunc r = (if 0 \<le> r then \<lfloor>r\<rfloor> else \<lceil>r\<rceil>)"

text \<open>
  \<^verbatim>\<open>.astype("int64")\<close> on one value of a float series: the truncation, when it lies in the
  int64 range. numpy leaves the cast of a float outside that range undefined, and the
  result depends on the platform; \<open>overflow\<close> stands for what the cast gives there.
\<close>

definition astype_int64 :: "(rat \<Rightarrow> int) \<Rightarrow> rat \<Rightarrow> int" where
  "astype_int64 overflow r =
    (if - (2 ^ 63) \<le> py_trunc r \<and> py_trunc r < 2 ^ 63 then py_trunc r else overflow r)"

definition of_float :: "rat option \<Rightarrow> cell" where
  "of_float v = (case v of Some r \<Rightarrow> Number r | None \<Rightarrow> Blank)"

definition of_int64 :: "int \<Rightarrow> cell" where
  "of_int64 n = Number (of_int n)"

definition is_bool_dtype :: "cell list \<Rightarrow> bool" where
  "is_bool_dtype series = list_all (\<lambda>c. case c of Flag b \<Rightarrow> True | _ \<Rightarrow> False) series"

fun bool_to_int64 :: "cell \<Rightarrow> int" where
  "bool_to_int64 (Flag b) = (if b then 1 else 0)"
| "bool_to_int64 _ = 0"

text \<open>
  \<^verbatim>\<open>series.astype(str)\<close>. A \<open>Number\<close> or \<open>Flag\<close> cell never reaches it in this program
  (\<^verbatim>\<open>to_numeric\<close> reads such a cell, so \<open>normalize_flag\<close> returns before), and a date
  prints as text that is no key of the flag mapping; the model prints these as the empty
  string.
\<close>

fun astype_str :: "cell \<Rightarrow> string" where
  "astype_str (Text s) = s"
| "astype_str Blank = ''nan''"
| "astype_str _ = []"

text \<open>
  \<^verbatim>\<open>str.strip\<close> removes the white space of Python at both ends; below code point 256
  that is 9 to 13, 28 to 32, 133 and 160.
\<close>

definition is_space :: "char \<Rightarrow> bool" where
  "is_space c = (c \<in> set [CHR '' '', CHR 0x09, CHR 0x0A, CHR 0x0B, CHR 0x0C, CHR 0x0D,
                          CHR 0x1C, CHR 0x1D, CHR 0x1E, CHR 0x1F, CHR 0x85, CHR 0xA0])"

definition strip :: "string \<Rightarrow> string" where
  "strip s = rev (dropWhile is_space (rev (dropWhile is_space s)))"

text \<open>
  \<^verbatim>\<open>str.upper\<close>. The upper case of a character below 256 can lie above 255 (the micro
  sign, y with diaeresis) or be two characters (sharp s), so the result is a list of code
  points. \<open>codes\<close> gives the code points of a string.
\<close>

definition codes :: "string \<Rightarrow> nat list" where
  "codes s = map of_char s"

definition upper_char :: "char \<Rightarrow> nat list" where
  "upper_char c =
    (let n = (of_char c :: nat) in
     if 97 \<le> n \<and> n \<le> 122 then [n - 32]
     else if n = 181 then [924]
     else if n = 223 then [83, 83]
     else if (224 \<le> n \<and> n \<le> 246) \<or> (248 \<le> n \<and> n \<le> 254) then [n - 32]
     else if n = 255 then [376]
     else [n])"

definition upper :: "string \<Rightarrow> nat list" where
  "upper s = concat (map upper_char s)"

subsection \<open>\<open>new_stats\<close>\<close>

definition new_stats :: stats where
  "new_stats =
    fold (\<lambda>field stats. stats(field \<mapsto> (if field \<in> SUM_FIELDS then PyFloat (Some 0) else PyInt 0)))
      METRIC_FIELDS Map.empty"

subsection \<open>\<open>normalize_flag\<close>\<close>

definition flag_mapping :: "(nat list \<times> rat) list" where
  "flag_mapping =
    [(codes ''Y'', 1), (codes ''YES'', 1), (codes ''TRUE'', 1), (codes ''T'', 1), (codes ''1'', 1)]"

definition normalize_flag :: "(rat \<Rightarrow> int) \<Rightarrow> cell list \<Rightarrow> int list" where
  "normalize_flag overflow series =
    (if series = [] then []
     else if is_bool_dtype series then map bool_to_int64 series
     else
       let numeric = to_numeric series in
       if list_ex (\<lambda>v. v \<noteq> None) numeric then map (astype_int64 overflow) (fillna 0 numeric)
       else
         let normalized = map (\<lambda>c. upper (strip (astype_str c))) series in
         map (astype_int64 overflow) (fillna 0 (map (map_of flag_mapping) normalized)))"

subsection \<open>\<open>safe_divide\<close>\<close>

text \<open>\<^verbatim>\<open>denominator.replace(0, np.nan)\<close>.\<close>

definition replace_zero_nan :: "mcell list \<Rightarrow> mcell list" where
  "replace_zero_nan series = map (\<lambda>c. if c = Plain (Number 0) then Plain Blank else c) series"

text \<open>
  The quotient \<^verbatim>\<open>numerator / denominator\<close> on one pair of values, in float arithmetic: a
  nonzero number divided by zero is infinite, with the sign of the number; zero divided by
  zero is NaN; an infinity divided by a number is infinite; a number divided by an
  infinity is zero; every other quotient, so every quotient with a NaN operand, is NaN.
\<close>

definition truediv :: "mcell \<Rightarrow> mcell \<Rightarrow> mcell" where
  "truediv x y =
    (case (x, y) of
       (Plain (Number a), Plain (Number b)) \<Rightarrow>
         if b \<noteq> 0 then Plain (Number (a / b))
         else if a = 0 then Plain Blank
         else Infinite (0 < a)
     | (Infinite sign, Plain (Number b)) \<Rightarrow> Infinite (if 0 \<le> b then sign else \<not> sign)
     | (Plain (Number a), Infinite sign) \<Rightarrow> Plain (Number 0)
     | _ \<Rightarrow> Plain Blank)"

definition safe_divide :: "mcell list \<Rightarrow> mcell list \<Rightarrow> mcell list" where
  "safe_divide numerator denominator =
    (let denominator = replace_zero_nan denominator
     in map (\<lambda>(n, d). truediv n d) (zip numerator denominator))"

subsection \<open>\<open>determine_available_columns\<close>\<close>

text \<open>The inner loop: the first alias found in the header, if any.\<close>

fun first_alias :: "string list \<Rightarrow> string list \<Rightarrow> string option" where
  "first_alias cols [] = None"
| "first_alias cols (alias # aliases) =
    (if alias \<in> set cols then Some alias else first_alias cols aliases)"

definition aliases_of :: "string \<Rightarrow> string list" where
  "aliases_of canonical =
    (case map_of COLUMN_ALIASES canonical of Some aliases \<Rightarrow> aliases | None \<Rightarrow> [canonical])"

text \<open>The outer loop over the canonical names, filling \<open>column_map\<close>.\<close>

fun resolve_columns ::
  "string list \<Rightarrow> string list \<Rightarrow> (string \<times> string) list \<Rightarrow> (string \<times> string) list" where
  "resolve_columns cols [] column_map = column_map"
| "resolve_columns cols (canonical # rest) column_map =
    resolve_columns cols rest
      (case first_alias cols (aliases_of canonical) of
         Some alias \<Rightarrow> AList.update canonical alias column_map
       | None \<Rightarrow> column_map)"

text \<open>The argument is the header row that \<^verbatim>\<open>pd.read_csv(path, nrows=0)\<close> returns.\<close>

definition determine_available_columns ::
  "string list \<Rightarrow> error + (string list \<times> (string \<times> string) list)" where
  "determine_available_columns header =
    (let column_map = resolve_columns header DESIRED_COLUMNS [] in
     if map_of column_map ''FL_DATE'' = None then Inl ValueError
     else Inr (sort (remdups (map snd column_map)), column_map))"

subsection \<open>\<open>enrich_metrics\<close>\<close>

text \<open>\<^verbatim>\<open>1 - x\<close> on one value of a series.\<close>

fun rsub1 :: "mcell \<Rightarrow> mcell" where
  "rsub1 (Plain (Number r)) = Plain (Number (1 - r))"
| "rsub1 (Infinite sign) = Infinite (\<not> sign)"
| "rsub1 _ = Plain Blank"

text \<open>
  One derived column: \<^verbatim>\<open>if {numerator, denominator}.issubset(result.columns):
  result[target] = post(safe_divide(result[numerator], result[denominator]))\<close>, where
  \<open>post\<close> acts on each value of the series.
\<close>

definition derive ::
  "string \<Rightarrow> string \<Rightarrow> string \<Rightarrow> (mcell \<Rightarrow> mcell) \<Rightarrow> metric_frame \<Rightarrow> metric_frame" where
  "derive target numerator denominator post result =
    (if {numerator, denominator} \<subseteq> set (mcolumns result)
     then massign result target
            (map post (safe_divide (mcol result numerator) (mcol result denominator)))
     else result)"

definition enrich_metrics :: "metric_frame \<Rightarrow> metric_frame" where
  "enrich_metrics df =
    (if mempty df then df
     else
       let result = df;
           result = derive ''avg_arr_delay'' ''arr_delay_sum'' ''arr_delay_count'' id result;
           result = derive ''avg_dep_delay'' ''dep_delay_sum'' ''dep_delay_count'' id result;
           result = derive ''on_time_rate'' ''arr_delay_over_15'' ''arr_delay_count'' rsub1 result;
           result = derive ''departure_delay_rate'' ''dep_delay_over_15'' ''dep_delay_count'' id
                      result;
           result = derive ''cancellation_rate'' ''cancelled'' ''flights'' id result;
           result = derive ''diversion_rate'' ''diverted'' ''flights'' id result
       in result)"

subsection \<open>Errors\<close>

text \<open>An exception ends the computation: the rest runs only on a normal result.\<close>

definition and_then :: "error + 'a \<Rightarrow> ('a \<Rightarrow> error + 'b) \<Rightarrow> error + 'b" where
  "and_then m f = (case m of Inl e \<Rightarrow> Inl e | Inr x \<Rightarrow> f x)"

subsection \<open>\<open>preprocess_chunk\<close>\<close>

text \<open>\<^verbatim>\<open>(series > t).astype("int64")\<close>: a comparison with NaN is false.\<close>

definition gt_int64 :: "cell list \<Rightarrow> rat \<Rightarrow> int list" where
  "gt_int64 series t =
    map (\<lambda>c. case c of Number r \<Rightarrow> (if t < r then 1 else 0) | _ \<Rightarrow> 0) series"

definition numeric_column :: "string \<Rightarrow> dataframe \<Rightarrow> dataframe" where
  "numeric_column c chunk = assign chunk c (map of_float (to_numeric (col chunk c)))"

definition delay_columns :: "string \<Rightarrow> string \<Rightarrow> dataframe \<Rightarrow> dataframe" where
  "delay_columns c over chunk =
    (if c \<in> set (columns chunk)
     then let chunk = numeric_column c chunk
          in assign chunk over (map of_int64 (gt_int64 (col chunk c) 15))
     else chunk)"

definition flag_column :: "(rat \<Rightarrow> int) \<Rightarrow> string \<Rightarrow> dataframe \<Rightarrow> dataframe" where
  "flag_column overflow c chunk =
    (if c \<in> set (columns chunk)
     then assign chunk c (map of_int64 (normalize_flag overflow (col chunk c)))
     else chunk)"

definition cause_column :: "string \<Rightarrow> dataframe \<Rightarrow> dataframe" where
  "cause_column cause_col chunk =
    (if cause_col \<in> set (columns chunk)
     then assign chunk cause_col
            (map (\<lambda>r. Number r) (fillna 0 (to_numeric (col chunk cause_col))))
     else chunk)"

definition preprocess_chunk :: "(rat \<Rightarrow> int) \<Rightarrow> dataframe \<Rightarrow> error + dataframe" where
  "preprocess_chunk overflow chunk =
    (if ''FL_DATE'' \<notin> set (columns chunk) then Inl KeyError
     else
       let chunk = assign chunk ''FL_DATE'' (to_datetime (col chunk ''FL_DATE''));
           chunk = dropna ''FL_DATE'' chunk;
           chunk = assign chunk ''month'' (map to_period_M (col chunk ''FL_DATE''));
           chunk = delay_columns ''ARR_DELAY'' ''arr_delay_over_15'' chunk;
           chunk = delay_columns ''DEP_DELAY'' ''dep_delay_over_15'' chunk;
           chunk = flag_column overflow ''CANCELLED'' chunk;
           chunk = flag_column overflow ''DIVERTED'' chunk;
           chunk = fold cause_column (map fst DELAY_CAUSE_COLUMNS) chunk
       in Inr chunk)"

subsection \<open>\<open>build_agg_spec\<close> and the grouped aggregation\<close>

datatype aggfunc = Size | Sum | Count

type_synonym agg_spec = "(string \<times> string \<times> aggfunc) list"

definition build_agg_spec :: "dataframe \<Rightarrow> agg_spec" where
  "build_agg_spec chunk =
    (let spec = [(''flights'', (''FL_DATE'', Size))];
         spec =
           (if ''ARR_DELAY'' \<in> set (columns chunk)
            then AList.update ''arr_delay_over_15'' (''arr_delay_over_15'', Sum)
                   (AList.update ''arr_delay_count'' (''ARR_DELAY'', Count)
                     (AList.update ''arr_delay_sum'' (''ARR_DELAY'', Sum) spec))
            else spec);
         spec =
           (if ''DEP_DELAY'' \<in> set (columns chunk)
            then AList.update ''dep_delay_over_15'' (''dep_delay_over_15'', Sum)
                   (AList.update ''dep_delay_count'' (''DEP_DELAY'', Count)
                     (AList.update ''dep_delay_sum'' (''DEP_DELAY'', Sum) spec))
            else spec);
         spec =
           (if ''CANCELLED'' \<in> set (columns chunk)
            then AList.update ''cancelled'' (''CANCELLED'', Sum) spec else spec);
         spec =
           (if ''DIVERTED'' \<in> set (columns chunk)
            then AList.update ''diverted'' (''DIVERTED'', Sum) spec else spec)
     in fold (\<lambda>(cause_col, field_name) spec.
                if cause_col \<in> set (columns chunk)
                then AList.update field_name (cause_col, Sum) spec else spec)
             DELAY_CAUSE_COLUMNS spec)"

text \<open>\<^verbatim>\<open>Series.sum\<close> skips NaN (the sum of no value is 0); \<^verbatim>\<open>Series.count\<close> counts the
  values that are not NaN.\<close>

definition series_sum :: "cell list \<Rightarrow> rat" where
  "series_sum series = sum_list (map (\<lambda>c. case c of Number r \<Rightarrow> r | _ \<Rightarrow> 0) series)"

definition series_count :: "cell list \<Rightarrow> nat" where
  "series_count series = length (filter (\<lambda>c. \<not> isna c) series)"

fun aggregate :: "(string \<rightharpoonup> cell) list \<Rightarrow> string \<times> aggfunc \<Rightarrow> cell" where
  "aggregate rows (c, Size) = of_int64 (int (length rows))"
| "aggregate rows (c, Sum) = Number (series_sum (map (\<lambda>r. cell_at r c) rows))"
| "aggregate rows (c, Count) = of_int64 (int (series_count (map (\<lambda>r. cell_at r c) rows)))"

record grouped = dataframe +
  index :: "cell list list"

definition group_key :: "string list \<Rightarrow> (string \<rightharpoonup> cell) \<Rightarrow> cell list" where
  "group_key by r = map (cell_at r) by"

text \<open>
  \<^verbatim>\<open>chunk.groupby(by, observed=True).agg(**agg_spec)\<close>: rows with a missing key are left
  out, and each remaining key gets one row holding the aggregates of its group. pandas
  lists the keys sorted; the model lists each key once, in the order \<open>remdups\<close> gives.
  The order decides only where a new key is inserted in the running dict.
\<close>

definition groupby_agg :: "dataframe \<Rightarrow> string list \<Rightarrow> agg_spec \<Rightarrow> grouped" where
  "groupby_agg chunk by spec =
    (let rows = filter (\<lambda>r. \<not> list_ex isna (group_key by r)) (records chunk);
         keys = remdups (map (group_key by) rows)
     in \<lparr>columns = map fst spec,
         records =
           map (\<lambda>k. map_of (map (\<lambda>(name, src). (name, aggregate (filter (\<lambda>r. group_key by r = k) rows) src)) spec))
               keys,
         index = keys\<rparr>)"

subsection \<open>\<open>update_table\<close>\<close>

fun py_add :: "pyval \<Rightarrow> pyval \<Rightarrow> pyval" where
  "py_add (PyInt a) (PyInt b) = PyInt (a + b)"
| "py_add (PyInt a) (PyFloat b) = PyFloat (map_option (\<lambda>y. of_int a + y) b)"
| "py_add (PyFloat a) (PyInt b) = PyFloat (map_option (\<lambda>x. x + of_int b) a)"
| "py_add (PyFloat a) (PyFloat b) =
    PyFloat (case a of None \<Rightarrow> None | Some x \<Rightarrow> map_option (\<lambda>y. x + y) b)"

text \<open>\<^verbatim>\<open>stats[field] += x\<close>; a key that is not in the dict raises.\<close>

definition iadd :: "stats \<Rightarrow> string \<Rightarrow> pyval \<Rightarrow> error + stats" where
  "iadd stats field x =
    (case stats field of None \<Rightarrow> Inl KeyError | Some v \<Rightarrow> Inr (stats(field \<mapsto> py_add v x)))"

text \<open>\<^verbatim>\<open>row[field]\<close>, \<^verbatim>\<open>int(value)\<close> and \<^verbatim>\<open>float(value)\<close>. \<^verbatim>\<open>int\<close> truncates and rejects
  NaN; text that is not a number is rejected by both.\<close>

definition getitem :: "(string \<rightharpoonup> cell) \<Rightarrow> string \<Rightarrow> error + cell" where
  "getitem row field = (case row field of None \<Rightarrow> Inl KeyError | Some v \<Rightarrow> Inr v)"

fun py_int :: "cell \<Rightarrow> error + int" where
  "py_int (Number r) = Inr (py_trunc r)"
| "py_int (Flag b) = Inr (if b then 1 else 0)"
| "py_int _ = Inl ValueError"

fun py_float :: "cell \<Rightarrow> error + rat option" where
  "py_float (Number r) = Inr (Some r)"
| "py_float (Flag b) = Inr (Some (if b then 1 else 0))"
| "py_float Blank = Inr None"
| "py_float _ = Inl ValueError"

text \<open>The inner loop over \<^verbatim>\<open>grouped.columns\<close>.\<close>

fun update_fields :: "string list \<Rightarrow> (string \<rightharpoonup> cell) \<Rightarrow> stats \<Rightarrow> error + stats" where
  "update_fields [] row stats = Inr stats"
| "update_fields (field # rest) row stats =
    (if field = ''flights'' then update_fields rest row stats
     else
       and_then (getitem row field) (\<lambda>value.
         if isna value then update_fields rest row stats
         else if field \<in> SUM_FIELDS
         then and_then (py_float value) (\<lambda>x.
                and_then (iadd stats field (PyFloat x)) (update_fields rest row))
         else and_then (py_int value) (\<lambda>n.
                and_then (iadd stats field (PyInt n)) (update_fields rest row))))"

text \<open>
  One pass of the outer loop body. \<^verbatim>\<open>table[key_tuple]\<close> reads a defaultdict: a new key is
  inserted with \<open>new_stats\<close>, at the end; the record is then updated in place.
\<close>

definition update_row :: "string list \<Rightarrow> (string \<rightharpoonup> cell) \<Rightarrow> stats \<Rightarrow> error + stats" where
  "update_row cols row stats =
    and_then (getitem row ''flights'') (\<lambda>value.
      and_then (py_int value) (\<lambda>n.
        and_then (iadd stats ''flights'' (PyInt n)) (update_fields cols row)))"

definition table_get :: "table \<Rightarrow> cell list \<Rightarrow> stats" where
  "table_get table key_tuple =
    (case map_of table key_tuple of Some stats \<Rightarrow> stats | None \<Rightarrow> new_stats)"

fun update_rows ::
  "string list \<Rightarrow> (cell list \<times> (string \<rightharpoonup> cell)) list \<Rightarrow> table \<Rightarrow> error + table" where
  "update_rows cols [] table = Inr table"
| "update_rows cols ((keys, row) # rest) table =
    and_then (update_row cols row (table_get table keys)) (\<lambda>stats.
      update_rows cols rest (AList.update keys stats table))"

definition update_table :: "table \<Rightarrow> grouped \<Rightarrow> error + table" where
  "update_table table grouped =
    (if empty_df grouped then Inr table
     else update_rows (columns grouped) (zip (index grouped) (records grouped)) table)"

subsection \<open>\<open>update_metrics_present\<close> and \<open>update_overall\<close>\<close>

definition update_metrics_present :: "string set \<Rightarrow> dataframe \<Rightarrow> string set" where
  "update_metrics_present metrics_present chunk =
    fold (\<lambda>(column, metrics) present.
            if column \<in> set (columns chunk) then present \<union> metrics else present)
         COLUMN_TO_METRICS metrics_present"

definition overall_delay ::
  "string \<Rightarrow> string \<Rightarrow> string \<Rightarrow> string \<Rightarrow> dataframe \<Rightarrow> stats \<Rightarrow> error + stats" where
  "overall_delay c sum_field count_field over chunk overall =
    (if c \<in> set (columns chunk)
     then and_then (iadd overall sum_field (PyFloat (Some (series_sum (col chunk c))))) (\<lambda>overall.
          and_then (iadd overall count_field (PyInt (int (series_count (col chunk c))))) (\<lambda>overall.
            if over \<in> set (columns chunk)
            then iadd overall over (PyInt (py_trunc (series_sum (col chunk over))))
            else Inr overall))
     else Inr overall)"

definition overall_flag :: "string \<Rightarrow> string \<Rightarrow> dataframe \<Rightarrow> stats \<Rightarrow> error + stats" where
  "overall_flag c field chunk overall =
    (if c \<in> set (columns chunk)
     then iadd overall field (PyInt (py_trunc (series_sum (col chunk c))))
     else Inr overall)"

fun overall_causes :: "(string \<times> string) list \<Rightarrow> dataframe \<Rightarrow> stats \<Rightarrow> error + stats" where
  "overall_causes [] chunk overall = Inr overall"
| "overall_causes ((cause_col, field_name) # rest) chunk overall =
    (if cause_col \<in> set (columns chunk)
     then and_then (iadd overall field_name (PyFloat (Some (series_sum (col chunk cause_col)))))
            (overall_causes rest chunk)
     else overall_causes rest chunk overall)"

definition update_overall :: "stats \<Rightarrow> dataframe \<Rightarrow> error + stats" where
  "update_overall overall chunk =
    and_then (iadd overall ''flights'' (PyInt (int (length (records chunk))))) (\<lambda>overall.
    and_then (overall_delay ''ARR_DELAY'' ''arr_delay_sum'' ''arr_delay_count''
                ''arr_delay_over_15'' chunk overall) (\<lambda>overall.
    and_then (overall_delay ''DEP_DELAY'' ''dep_delay_sum'' ''dep_delay_count''
                ''dep_delay_over_15'' chunk overall) (\<lambda>overall.
    and_then (overall_flag ''CANCELLED'' ''cancelled'' chunk overall) (\<lambda>overall.
    and_then (overall_flag ''DIVERTED'' ''diverted'' chunk overall) (\<lambda>overall.
      overall_causes DELAY_CAUSE_COLUMNS chunk overall)))))"

subsection \<open>\<open>finalize_table\<close>\<close>

fun cell_of :: "pyval \<Rightarrow> cell" where
  "cell_of (PyInt n) = Number (of_int n)"
| "cell_of (PyFloat (Some r)) = Number r"
| "cell_of (PyFloat None) = Blank"

text \<open>
  One record per key: the key fields, then the metrics. A Metric Record is made by
  \<open>new_stats\<close> and only its existing keys are ever updated, so the columns of the frame
  built from the records are the key names followed by \<open>METRIC_FIELDS\<close>.
\<close>

definition finalize_table :: "table \<Rightarrow> string list \<Rightarrow> metric_frame" where
  "finalize_table table key_names =
    (let recs = map (\<lambda>(keys, metrics). map_of (zip key_names keys) ++ (map_option cell_of \<circ> metrics))
                  table
     in \<lparr>mcolumns = key_names @ METRIC_FIELDS, mrecords = map (\<lambda>r. map_option Plain \<circ> r) recs\<rparr>)"

subsection \<open>The loop body of \<open>process_dataset\<close>\<close>

record state =
  monthly_stats :: table
  carrier_stats :: table
  origin_stats :: table
  route_stats :: table
  overall_stats :: stats
  metrics_present :: "string set"

definition initial_state :: state where
  "initial_state =
    \<lparr>monthly_stats = [], carrier_stats = [], origin_stats = [], route_stats = [],
     overall_stats = new_stats, metrics_present = {}\<rparr>"

definition update_dimension ::
  "string list \<Rightarrow> dataframe \<Rightarrow> agg_spec \<Rightarrow> table \<Rightarrow> error + table" where
  "update_dimension by chunk spec table =
    (if set by \<subseteq> set (columns chunk)
     then update_table table (groupby_agg chunk by spec)
     else Inr table)"

text \<open>What the loop does with one chunk, after the columns were renamed to their
  canonical names.\<close>

definition process_chunk :: "(rat \<Rightarrow> int) \<Rightarrow> state \<Rightarrow> dataframe \<Rightarrow> error + state" where
  "process_chunk overflow st chunk =
    and_then (preprocess_chunk overflow chunk) (\<lambda>chunk.
      if empty_df chunk then Inr st
      else
        let present = update_metrics_present (metrics_present st) chunk in
        and_then (update_overall (overall_stats st) chunk) (\<lambda>overall.
        let spec = build_agg_spec chunk in
        and_then (update_table (monthly_stats st) (groupby_agg chunk [''month''] spec)) (\<lambda>monthly.
        and_then (update_dimension [''OP_CARRIER''] chunk spec (carrier_stats st)) (\<lambda>carrier.
        and_then (update_dimension [''ORIGIN''] chunk spec (origin_stats st)) (\<lambda>origin.
        and_then (update_dimension [''ORIGIN'', ''DEST''] chunk spec (route_stats st)) (\<lambda>route.
          Inr \<lparr>monthly_stats = monthly, carrier_stats = carrier, origin_stats = origin,
               route_stats = route, overall_stats = overall, metrics_present = present\<rparr>))))))"

fun process_chunks :: "(rat \<Rightarrow> int) \<Rightarrow> state \<Rightarrow> dataframe list \<Rightarrow> error + state" where
  "process_chunks overflow st [] = Inr st"
| "process_chunks overflow st (chunk # rest) =
    and_then (process_chunk overflow st chunk) (\<lambda>st. process_chunks overflow st rest)"

subsection \<open>The overall cancellation rate of \<open>build_report\<close>\<close>

fun py_num :: "pyval \<Rightarrow> rat option" where
  "py_num (PyInt n) = Some (of_int n)"
| "py_num (PyFloat x) = x"

text \<open>
  The bullet is written when \<^verbatim>\<open>"cancelled" in metrics_present and overall.get("flights")\<close>;
  the report prints the rate times 100.
\<close>

definition overall_cancellation_rate :: "string set \<Rightarrow> stats \<Rightarrow> rat option" where
  "overall_cancellation_rate present overall =
    (case (overall ''cancelled'', overall ''flights'') of
       (Some c, Some f) \<Rightarrow>
         (case (py_num c, py_num f) of
            (Some x, Some y) \<Rightarrow> if ''cancelled'' \<in> present \<and> y \<noteq> 0 then Some (x / y) else None
          | _ \<Rightarrow> None)
     | _ \<Rightarrow> None)"

subsection \<open>Notions used in the proofs\<close>

text \<open>The quotient that \<open>safe_divide\<close> computes for one row.\<close>

definition ratio :: "mcell \<Rightarrow> mcell \<Rightarrow> mcell" where
  "ratio n d = truediv n (if d = Plain (Number 0) then Plain Blank else d)"

text \<open>
  \<open>derived target numerator denominator post df\<close>: if both source columns are in the
  frame, the target column is in it and holds, in every row, the quotient of that row.
\<close>

definition derived ::
  "string \<Rightarrow> string \<Rightarrow> string \<Rightarrow> (mcell \<Rightarrow> mcell) \<Rightarrow> metric_frame \<Rightarrow> bool" where
  "derived target numerator denominator post df \<longleftrightarrow>
    ({numerator, denominator} \<subseteq> set (mcolumns df) \<longrightarrow>
       target \<in> set (mcolumns df) \<and>
       (\<forall>r \<in> set (mrecords df).
          r target = Some (post (ratio (mcell_at r numerator) (mcell_at r denominator)))))"

definition enriched :: "metric_frame \<Rightarrow> bool" where
  "enriched E \<longleftrightarrow>
     derived ''avg_arr_delay'' ''arr_delay_sum'' ''arr_delay_count'' id E \<and>
     derived ''avg_dep_delay'' ''dep_delay_sum'' ''dep_delay_count'' id E \<and>
     derived ''on_time_rate'' ''arr_delay_over_15'' ''arr_delay_count'' rsub1 E \<and>
     derived ''departure_delay_rate'' ''dep_delay_over_15'' ''dep_delay_count'' id E \<and>
     derived ''cancellation_rate'' ''cancelled'' ''flights'' id E \<and>
     derived ''diversion_rate'' ''diverted'' ''flights'' id E"

text \<open>A carrier table with one group: two flights, neither with a known arrival delay.\<close>

definition unknown_arrivals :: metric_frame where
  "unknown_arrivals =
    \<lparr>mcolumns = ''OP_CARRIER'' # METRIC_FIELDS,
     mrecords =
       [[''OP_CARRIER'' \<mapsto> Plain (Text ''ZZ''), ''flights'' \<mapsto> Plain (Number 2),
         ''arr_delay_sum'' \<mapsto> Plain (Number 0), ''arr_delay_count'' \<mapsto> Plain (Number 0),
         ''arr_delay_over_15'' \<mapsto> Plain (Number 0), ''dep_delay_sum'' \<mapsto> Plain (Number 14),
         ''dep_delay_count'' \<mapsto> Plain (Number 2), ''dep_delay_over_15'' \<mapsto> Plain (Number 0),
         ''cancelled'' \<mapsto> Plain (Number 2), ''diverted'' \<mapsto> Plain (Number 0),
         ''carrier_delay_sum'' \<mapsto> Plain (Number 0), ''weather_delay_sum'' \<mapsto> Plain (Number 0),
         ''nas_delay_sum'' \<mapsto> Plain (Number 0), ''security_delay_sum'' \<mapsto> Plain (Number 0),
         ''late_aircraft_delay_sum'' \<mapsto> Plain (Number 0)]]\<rparr>"

text \<open>
  A carrier table with one group whose arrival-delay count is zero while its arrival-delay
  sum and its count of late arrivals are not. The quotient of such a row is infinite
  unless the zero denominator is replaced first.
\<close>

definition late_without_count :: metric_frame where
  "late_without_count =
    \<lparr>mcolumns = ''OP_CARRIER'' # METRIC_FIELDS,
     mrecords =
       [[''OP_CARRIER'' \<mapsto> Plain (Text ''ZZ''), ''flights'' \<mapsto> Plain (Number 2),
         ''arr_delay_sum'' \<mapsto> Plain (Number 40), ''arr_delay_count'' \<mapsto> Plain (Number 0),
         ''arr_delay_over_15'' \<mapsto> Plain (Number 1), ''dep_delay_sum'' \<mapsto> Plain (Number 14),
         ''dep_delay_count'' \<mapsto> Plain (Number 2), ''dep_delay_over_15'' \<mapsto> Plain (Number 0),
         ''cancelled'' \<mapsto> Plain (Number 0), ''diverted'' \<mapsto> Plain (Number 0),
         ''carrier_delay_sum'' \<mapsto> Plain (Number 0), ''weather_delay_sum'' \<mapsto> Plain (Number 0),
         ''nas_delay_sum'' \<mapsto> Plain (Number 0), ''security_delay_sum'' \<mapsto> Plain (Number 0),
         ''late_aircraft_delay_sum'' \<mapsto> Plain (Number 0)]]\<rparr>"

text \<open>The rows of a chunk whose date \<^verbatim>\<open>to_datetime\<close> can read.\<close>

definition valid_rows :: "dataframe \<Rightarrow> (string \<rightharpoonup> cell) list" where
  "valid_rows chunk =
    filter (\<lambda>r. \<not> isna (coerce_datetime (cell_at r ''FL_DATE''))) (records chunk)"

text \<open>The chunk after the first three statements of \<open>preprocess_chunk\<close>.\<close>

definition dated :: "dataframe \<Rightarrow> dataframe" where
  "dated chunk =
    (let chunk = assign chunk ''FL_DATE'' (to_datetime (col chunk ''FL_DATE''));
         chunk = dropna ''FL_DATE'' chunk
     in assign chunk ''month'' (map to_period_M (col chunk ''FL_DATE'')))"

text \<open>What the normaliser makes of one delay value, its over-15 indicator, and one
  delay-cause value.\<close>

definition delay_cell :: "cell \<Rightarrow> cell" where
  "delay_cell v = of_float (coerce_numeric v)"

definition over_cell :: "cell \<Rightarrow> cell" where
  "over_cell v = of_int64 (case v of Number r \<Rightarrow> (if 15 < r then 1 else 0) | _ \<Rightarrow> 0)"

definition cause_cell :: "cell \<Rightarrow> cell" where
  "cause_cell v = Number (case coerce_numeric v of Some r \<Rightarrow> r | None \<Rightarrow> 0)"

text \<open>Two flag columns: text only, and text mixed with numbers, one of them beyond the
  int64 range.\<close>

definition text_flags :: "cell list" where
  "text_flags = [Text ''no'', Text [CHR '' '', CHR ''y'', CHR ''e'', CHR ''s'', CHR 0xA0]]"

definition mixed_flags :: "cell list" where
  "mixed_flags = [Number (3 / 2), Text ''Y'', Number (10 ^ 30)]"

text \<open>Two flights at the threshold: an arrival delay of exactly 15 and one of 15.01.\<close>

definition threshold_chunk :: dataframe where
  "threshold_chunk =
    \<lparr>columns = [''FL_DATE'', ''ARR_DELAY'', ''DEP_DELAY''],
     records =
       [[''FL_DATE'' \<mapsto> Stamp 2024 3 1, ''ARR_DELAY'' \<mapsto> Number 15, ''DEP_DELAY'' \<mapsto> Number 16],
        [''FL_DATE'' \<mapsto> Stamp 2024 3 2, ''ARR_DELAY'' \<mapsto> Number (1501 / 100),
         ''DEP_DELAY'' \<mapsto> Text ''n/a'']]\<rparr>"

definition threshold_normalized :: dataframe where
  "threshold_normalized = projr (preprocess_chunk (\<lambda>r. 0) threshold_chunk)"

text \<open>Three flights; two of them have no usable arrival delay and no usable cause.\<close>

definition gaps_chunk :: dataframe where
  "gaps_chunk =
    \<lparr>columns = [''FL_DATE'', ''ARR_DELAY'', ''CARRIER_DELAY''],
     records =
       [[''FL_DATE'' \<mapsto> Stamp 2024 3 1, ''ARR_DELAY'' \<mapsto> Blank, ''CARRIER_DELAY'' \<mapsto> Blank],
        [''FL_DATE'' \<mapsto> Stamp 2024 3 2, ''ARR_DELAY'' \<mapsto> Text ''late'',
         ''CARRIER_DELAY'' \<mapsto> Text ''unknown''],
        [''FL_DATE'' \<mapsto> Stamp 2024 3 3, ''ARR_DELAY'' \<mapsto> Number 7, ''CARRIER_DELAY'' \<mapsto> Number 7]]\<rparr>"

definition gaps_normalized :: dataframe where
  "gaps_normalized = projr (preprocess_chunk (\<lambda>r. 0) gaps_chunk)"

text \<open>
  The merge without its error branches: what \<open>update_row\<close> adds to one field, and the
  record it leaves, when every value of the row is a number and every field is in the
  record.
\<close>

definition add_partial :: "string \<Rightarrow> rat \<Rightarrow> pyval \<Rightarrow> pyval" where
  "add_partial field x v =
    py_add v (if field \<in> SUM_FIELDS then PyFloat (Some x) else PyInt (py_trunc x))"

definition merge_stats :: "string list \<Rightarrow> (string \<rightharpoonup> cell) \<Rightarrow> stats \<Rightarrow> stats" where
  "merge_stats fs row stats =
    (\<lambda>f. if f \<in> set fs
         then (case (stats f, row f) of
                 (Some v, Some (Number x)) \<Rightarrow> Some (add_partial f x v)
               | _ \<Rightarrow> stats f)
         else stats f)"

definition numeric_row :: "string list \<Rightarrow> (string \<rightharpoonup> cell) \<Rightarrow> bool" where
  "numeric_row fs row \<longleftrightarrow> (\<forall>f \<in> set fs. \<exists>x. row f = Some (Number x))"

text \<open>The rows that \<^verbatim>\<open>groupby\<close> keeps, the rows of one group, and the number that an
  aggregate of a group is.\<close>

definition key_rows :: "string list \<Rightarrow> (string \<rightharpoonup> cell) list \<Rightarrow> (string \<rightharpoonup> cell) list" where
  "key_rows by rows = filter (\<lambda>r. \<not> list_ex isna (group_key by r)) rows"

definition group_rows ::
  "string list \<Rightarrow> (string \<rightharpoonup> cell) list \<Rightarrow> cell list \<Rightarrow> (string \<rightharpoonup> cell) list" where
  "group_rows by rows k = filter (\<lambda>r. group_key by r = k) (key_rows by rows)"

fun agg_num :: "(string \<rightharpoonup> cell) list \<Rightarrow> string \<times> aggfunc \<Rightarrow> rat" where
  "agg_num rows (c, Size) = of_nat (length rows)"
| "agg_num rows (c, Sum) = series_sum (map (\<lambda>r. cell_at r c) rows)"
| "agg_num rows (c, Count) = of_nat (series_count (map (\<lambda>r. cell_at r c) rows))"

text \<open>The record after the partial aggregate of \<open>rows\<close> was merged into it.\<close>

definition merged :: "agg_spec \<Rightarrow> (string \<rightharpoonup> cell) list \<Rightarrow> stats \<Rightarrow> stats" where
  "merged spec rows stats =
    (\<lambda>f. case map_of spec f of
           None \<Rightarrow> stats f
         | Some src \<Rightarrow> map_option (add_partial f (agg_num rows src)) (stats f))"

text \<open>The body of the last loop of \<open>build_agg_spec\<close>, and the spec before that loop.\<close>

definition cause_step :: "string set \<Rightarrow> string \<times> string \<Rightarrow> agg_spec \<Rightarrow> agg_spec" where
  "cause_step S = (\<lambda>(cause_col, field_name) spec.
                if cause_col \<in> S
                then AList.update field_name (cause_col, Sum) spec else spec)"

definition base_spec :: "dataframe \<Rightarrow> agg_spec" where
  "base_spec chunk =
    (let spec = [(''flights'', (''FL_DATE'', Size))];
         spec =
           (if ''ARR_DELAY'' \<in> set (columns chunk)
            then AList.update ''arr_delay_over_15'' (''arr_delay_over_15'', Sum)
                   (AList.update ''arr_delay_count'' (''ARR_DELAY'', Count)
                     (AList.update ''arr_delay_sum'' (''ARR_DELAY'', Sum) spec))
            else spec);
         spec =
           (if ''DEP_DELAY'' \<in> set (columns chunk)
            then AList.update ''dep_delay_over_15'' (''dep_delay_over_15'', Sum)
                   (AList.update ''dep_delay_count'' (''DEP_DELAY'', Count)
                     (AList.update ''dep_delay_sum'' (''DEP_DELAY'', Sum) spec))
            else spec);
         spec =
           (if ''CANCELLED'' \<in> set (columns chunk)
            then AList.update ''cancelled'' (''CANCELLED'', Sum) spec else spec)
     in (if ''DIVERTED'' \<in> set (columns chunk)
            then AList.update ''diverted'' (''DIVERTED'', Sum) spec else spec))"

text \<open>The entries that \<open>build_agg_spec\<close> can hold before its loop over the delay causes.\<close>

definition count_entries :: "dataframe \<Rightarrow> (string \<times> string \<times> aggfunc) set" where
  "count_entries chunk =
    {(''flights'', (''FL_DATE'', Size))} \<union>
    {e. ''ARR_DELAY'' \<in> set (columns chunk) \<and>
        e \<in> {(''arr_delay_sum'', (''ARR_DELAY'', Sum)), (''arr_delay_count'', (''ARR_DELAY'', Count)),
             (''arr_delay_over_15'', (''arr_delay_over_15'', Sum))}} \<union>
    {e. ''DEP_DELAY'' \<in> set (columns chunk) \<and>
        e \<in> {(''dep_delay_sum'', (''DEP_DELAY'', Sum)), (''dep_delay_count'', (''DEP_DELAY'', Count)),
             (''dep_delay_over_15'', (''dep_delay_over_15'', Sum))}} \<union>
    {e. ''CANCELLED'' \<in> set (columns chunk) \<and> e = (''cancelled'', (''CANCELLED'', Sum))} \<union>
    {e. ''DIVERTED'' \<in> set (columns chunk) \<and> e = (''diverted'', (''DIVERTED'', Sum))}"

text \<open>A row whose value in the delay column \<open>c\<close> is known and strictly greater than 15.\<close>

definition over_15 :: "string \<Rightarrow> (string \<rightharpoonup> cell) \<Rightarrow> bool" where
  "over_15 c r = (case cell_at r c of Number x \<Rightarrow> 15 < x | _ \<Rightarrow> False)"

text \<open>Every Metric Record of the table has exactly the metric fields.\<close>

definition complete :: "table \<Rightarrow> bool" where
  "complete table \<longleftrightarrow> (\<forall>k stats. map_of table k = Some stats \<longrightarrow> dom stats = set METRIC_FIELDS)"

text \<open>A monthly table that already counts four late arrivals in March 2024.\<close>

definition march_table :: table where
  "march_table = [([Period 2024 3], new_stats(''arr_delay_over_15'' \<mapsto> PyInt 4))]"

text \<open>Two flights; the date of the second, which is late and cancelled, cannot be read.\<close>

definition undated_chunk :: dataframe where
  "undated_chunk =
    \<lparr>columns = [''FL_DATE'', ''OP_CARRIER'', ''ARR_DELAY'', ''CANCELLED''],
     records =
       [[''FL_DATE'' \<mapsto> Stamp 2024 3 1, ''OP_CARRIER'' \<mapsto> Text ''AA'',
         ''ARR_DELAY'' \<mapsto> Number 5, ''CANCELLED'' \<mapsto> Number 0],
        [''FL_DATE'' \<mapsto> Text ''soon'', ''OP_CARRIER'' \<mapsto> Text ''AA'',
         ''ARR_DELAY'' \<mapsto> Number 90, ''CANCELLED'' \<mapsto> Number 1]]\<rparr>"

text \<open>The batch of three flights of the boundary scenario, under the canonical column
  names, and the state after the loop body has run on it from the initial state.\<close>

definition scenario_chunk :: dataframe where
  "scenario_chunk =
    \<lparr>columns = [''FL_DATE'', ''OP_CARRIER'', ''ORIGIN'', ''DEST'', ''ARR_DELAY'', ''DEP_DELAY'',
                ''CANCELLED''],
     records =
       [[''FL_DATE'' \<mapsto> Stamp 2024 1 5, ''OP_CARRIER'' \<mapsto> Text ''AA'', ''ORIGIN'' \<mapsto> Text ''JFK'',
         ''DEST'' \<mapsto> Text ''LAX'', ''ARR_DELAY'' \<mapsto> Number 20, ''DEP_DELAY'' \<mapsto> Number 5,
         ''CANCELLED'' \<mapsto> Text ''N''],
        [''FL_DATE'' \<mapsto> Stamp 2024 1 20, ''OP_CARRIER'' \<mapsto> Text ''AA'', ''ORIGIN'' \<mapsto> Text ''JFK'',
         ''DEST'' \<mapsto> Text ''LAX'', ''ARR_DELAY'' \<mapsto> Blank, ''DEP_DELAY'' \<mapsto> Blank,
         ''CANCELLED'' \<mapsto> Text ''Y''],
        [''FL_DATE'' \<mapsto> Stamp 2024 2 1, ''OP_CARRIER'' \<mapsto> Text ''DL'', ''ORIGIN'' \<mapsto> Text ''ATL'',
         ''DEST'' \<mapsto> Text ''LAX'', ''ARR_DELAY'' \<mapsto> Number 10, ''DEP_DELAY'' \<mapsto> Number (- 3),
         ''CANCELLED'' \<mapsto> Text ''N'']]\<rparr>"

definition scenario_state :: "(rat \<Rightarrow> int) \<Rightarrow> state" where
  "scenario_state overflow = projr (process_chunk overflow initial_state scenario_chunk)"

text \<open>The rows of a frame of metrics, read at the given columns.\<close>

definition rows_at :: "string list \<Rightarrow> metric_frame \<Rightarrow> mcell list list" where
  "rows_at cs df = map (\<lambda>r. map (mcell_at r) cs) (mrecords df)"

section \<open>Properties\<close>

subsection \<open>Metric enrichment\<close>

lemma truediv_blank: "truediv x (Plain Blank) = Plain Blank"
  by (simp add: truediv_def split: mcell.splits cell.splits)

lemma truediv_number:
  "b \<noteq> 0 \<Longrightarrow> truediv (Plain (Number a)) (Plain (Number b)) = Plain (Number (a / b))"
  by (simp add: truediv_def)

lemma truediv_zero:
  "a \<noteq> 0 \<Longrightarrow> truediv (Plain (Number a)) (Plain (Number 0)) = Infinite (0 < a)"
  by (simp add: truediv_def)

lemma safe_divide_col:
  "safe_divide (mcol df a) (mcol df b) = map (\<lambda>r. ratio (mcell_at r a) (mcell_at r b)) (mrecords df)"
  by (simp add: safe_divide_def mcol_def replace_zero_nan_def ratio_def zip_map_map zip_same_conv_map)

lemma massign_map:
  "massign df c (map f (mrecords df)) =
    \<lparr>mcolumns = (if c \<in> set (mcolumns df) then mcolumns df else mcolumns df @ [c]),
     mrecords = map (\<lambda>r. r(c \<mapsto> f r)) (mrecords df)\<rparr>"
  by (simp add: massign_def zip_map2 zip_same_conv_map)

lemma derivedD:
  "derived t a b post df \<Longrightarrow> a \<in> set (mcolumns df) \<Longrightarrow> b \<in> set (mcolumns df) \<Longrightarrow>
   r \<in> set (mrecords df) \<Longrightarrow> mcell_at r t = post (ratio (mcell_at r a) (mcell_at r b))"
  by (auto simp: derived_def mcell_at_def)

lemma derive_eq:
  "derive t a b post df =
    (if {a, b} \<subseteq> set (mcolumns df)
     then \<lparr>mcolumns = (if t \<in> set (mcolumns df) then mcolumns df else mcolumns df @ [t]),
           mrecords = map (\<lambda>r. r(t \<mapsto> post (ratio (mcell_at r a) (mcell_at r b)))) (mrecords df)\<rparr>
     else df)"
  by (simp add: derive_def safe_divide_col massign_map)

lemma derive_establish:
  "t \<noteq> a \<Longrightarrow> t \<noteq> b \<Longrightarrow> derived t a b post (derive t a b post df)"
  by (auto simp: derive_eq derived_def mcell_at_def)

lemma derive_preserve:
  "t' \<noteq> t \<Longrightarrow> t' \<noteq> a \<Longrightarrow> t' \<noteq> b \<Longrightarrow>
   derived t a b post (derive t' a' b' post' df) = derived t a b post df"
  by (auto simp: derive_eq derived_def mcell_at_def)

lemma derive_fixed:
  "derived t a b post df \<Longrightarrow> derive t a b post df = df"
  by (auto simp: derive_eq derived_def intro!: metric_frame.equality map_idI)

lemma derive_not_empty: "\<not> mempty df \<Longrightarrow> \<not> mempty (derive t a b post df)"
  by (auto simp: derive_eq mempty_def)

lemma derive_other: "x \<noteq> t \<Longrightarrow> mcol (derive t a b post df) x = mcol df x"
  by (auto simp: derive_eq mcol_def mcell_at_def)

lemma derive_length: "length (mrecords (derive t a b post df)) = length (mrecords df)"
  by (simp add: derive_eq)

lemma enrich_nonempty:
  "\<not> mempty df \<Longrightarrow> enrich_metrics df =
     derive ''diversion_rate'' ''diverted'' ''flights'' id
      (derive ''cancellation_rate'' ''cancelled'' ''flights'' id
        (derive ''departure_delay_rate'' ''dep_delay_over_15'' ''dep_delay_count'' id
          (derive ''on_time_rate'' ''arr_delay_over_15'' ''arr_delay_count'' rsub1
            (derive ''avg_dep_delay'' ''dep_delay_sum'' ''dep_delay_count'' id
              (derive ''avg_arr_delay'' ''arr_delay_sum'' ''arr_delay_count'' id df)))))"
  by (simp add: enrich_metrics_def)

lemma enriched_enrich:
  assumes "\<not> mempty df"
  shows "enriched (enrich_metrics df)"
  unfolding enriched_def enrich_nonempty[OF assms]
  by (simp add: derive_preserve derive_establish)

lemma enrich_not_empty: "\<not> mempty df \<Longrightarrow> \<not> mempty (enrich_metrics df)"
  by (simp add: enrich_nonempty derive_not_empty)

lemma enrich_fixed: "enriched E \<Longrightarrow> enrich_metrics E = E"
  by (simp add: enrich_metrics_def enriched_def derive_fixed)

lemma derive_columns: "x \<in> set (mcolumns df) \<Longrightarrow> x \<in> set (mcolumns (derive t a b post df))"
  by (simp add: derive_eq)

lemma enrich_columns: "set (mcolumns df) \<subseteq> set (mcolumns (enrich_metrics df))"
proof (cases "mempty df")
  case True
  then show ?thesis by (simp add: enrich_metrics_def)
next
  case False
  show ?thesis
    unfolding enrich_nonempty[OF False]
    by (auto intro!: derive_columns)
qed

lemma enrich_other:
  "x \<notin> {''avg_arr_delay'', ''avg_dep_delay'', ''on_time_rate'', ''departure_delay_rate'',
         ''cancellation_rate'', ''diversion_rate''} \<Longrightarrow> mcol (enrich_metrics df) x = mcol df x"
  by (cases "mempty df") (simp_all add: enrich_nonempty derive_other, simp add: enrich_metrics_def)

text \<open>
  C7. Enrichment is idempotent: enriching an enriched table gives the same table again, on
  every field, and enrichment leaves every sum and count column as it was.
\<close>

theorem enrich_idempotent:
  "enrich_metrics (enrich_metrics df) = enrich_metrics df \<and>
   (\<forall>field \<in> set METRIC_FIELDS. mcol (enrich_metrics df) field = mcol df field)"
proof
  show "enrich_metrics (enrich_metrics df) = enrich_metrics df"
  proof (cases "mempty df")
    case True
    then show ?thesis by (simp add: enrich_metrics_def)
  next
    case False
    then show ?thesis by (simp add: enrich_fixed enriched_enrich)
  qed
  show "\<forall>field \<in> set METRIC_FIELDS. mcol (enrich_metrics df) field = mcol df field"
    by (simp add: METRIC_FIELDS_def BASE_METRIC_FIELDS_def DELAY_CAUSE_COLUMNS_def enrich_other)
qed

text \<open>An instance: the table \<open>unknown_arrivals\<close> and its \<open>flights\<close> column.\<close>

theorem enrich_idempotent_witness:
  "''flights'' \<in> set METRIC_FIELDS \<and>
   enrich_metrics (enrich_metrics unknown_arrivals) = enrich_metrics unknown_arrivals \<and>
   mcol (enrich_metrics unknown_arrivals) ''flights'' = [Plain (Number 2)]"
  using enrich_idempotent[of unknown_arrivals]
  by (simp add: METRIC_FIELDS_def BASE_METRIC_FIELDS_def unknown_arrivals_def mcol_def mcell_at_def)

text \<open>
  C3. Zero-denominator safety: in an enriched table, a group whose arrival-delay count is
  zero has a null on-time rate and a null average arrival delay, and every other rate is
  null when its own denominator is zero. The denominator of the on-time rate is the count
  of known arrival delays: with a count \<open>n \<noteq> 0\<close> the rate is \<open>1 - late / n\<close>.
\<close>

theorem zero_denominator_null:
  assumes "\<not> mempty df" and "set METRIC_FIELDS \<subseteq> set (mcolumns df)"
    and "r \<in> set (mrecords (enrich_metrics df))"
  shows "(mcell_at r ''arr_delay_count'' = Plain (Number 0) \<longrightarrow>
            mcell_at r ''on_time_rate'' = Plain Blank \<and> mcell_at r ''avg_arr_delay'' = Plain Blank) \<and>
         (mcell_at r ''dep_delay_count'' = Plain (Number 0) \<longrightarrow>
            mcell_at r ''departure_delay_rate'' = Plain Blank \<and> mcell_at r ''avg_dep_delay'' = Plain Blank) \<and>
         (mcell_at r ''flights'' = Plain (Number 0) \<longrightarrow>
            mcell_at r ''cancellation_rate'' = Plain Blank \<and> mcell_at r ''diversion_rate'' = Plain Blank) \<and>
         (\<forall>late n. mcell_at r ''arr_delay_over_15'' = Plain (Number late) \<and>
                   mcell_at r ''arr_delay_count'' = Plain (Number n) \<and> n \<noteq> 0 \<longrightarrow>
            mcell_at r ''on_time_rate'' = Plain (Number (1 - late / n)))"
proof -
  let ?E = "enrich_metrics df"
  have cols: "set METRIC_FIELDS \<subseteq> set (mcolumns ?E)"
    using assms(2) enrich_columns[of df] by blast
  have E: "enriched ?E" by (rule enriched_enrich[OF assms(1)])
  from cols have mem: "''arr_delay_sum'' \<in> set (mcolumns ?E)" "''arr_delay_count'' \<in> set (mcolumns ?E)"
    "''dep_delay_sum'' \<in> set (mcolumns ?E)" "''dep_delay_count'' \<in> set (mcolumns ?E)"
    "''arr_delay_over_15'' \<in> set (mcolumns ?E)" "''dep_delay_over_15'' \<in> set (mcolumns ?E)"
    "''cancelled'' \<in> set (mcolumns ?E)" "''diverted'' \<in> set (mcolumns ?E)" "''flights'' \<in> set (mcolumns ?E)"
    by (auto simp: METRIC_FIELDS_def BASE_METRIC_FIELDS_def)
  from E have d:
    "derived ''avg_arr_delay'' ''arr_delay_sum'' ''arr_delay_count'' id ?E"
    "derived ''avg_dep_delay'' ''dep_delay_sum'' ''dep_delay_count'' id ?E"
    "derived ''on_time_rate'' ''arr_delay_over_15'' ''arr_delay_count'' rsub1 ?E"
    "derived ''departure_delay_rate'' ''dep_delay_over_15'' ''dep_delay_count'' id ?E"
    "derived ''cancellation_rate'' ''cancelled'' ''flights'' id ?E"
    "derived ''diversion_rate'' ''diverted'' ''flights'' id ?E"
    by (simp_all add: enriched_def)
  have facts:
    "mcell_at r ''avg_arr_delay'' = ratio (mcell_at r ''arr_delay_sum'') (mcell_at r ''arr_delay_count'')"
    "mcell_at r ''avg_dep_delay'' = ratio (mcell_at r ''dep_delay_sum'') (mcell_at r ''dep_delay_count'')"
    "mcell_at r ''on_time_rate'' =
       rsub1 (ratio (mcell_at r ''arr_delay_over_15'') (mcell_at r ''arr_delay_count''))"
    "mcell_at r ''departure_delay_rate'' =
       ratio (mcell_at r ''dep_delay_over_15'') (mcell_at r ''dep_delay_count'')"
    "mcell_at r ''cancellation_rate'' = ratio (mcell_at r ''cancelled'') (mcell_at r ''flights'')"
    "mcell_at r ''diversion_rate'' = ratio (mcell_at r ''diverted'') (mcell_at r ''flights'')"
    using derivedD[OF d(1) mem(1) mem(2) assms(3)] derivedD[OF d(2) mem(3) mem(4) assms(3)]
      derivedD[OF d(3) mem(5) mem(2) assms(3)] derivedD[OF d(4) mem(6) mem(4) assms(3)]
      derivedD[OF d(5) mem(7) mem(9) assms(3)] derivedD[OF d(6) mem(8) mem(9) assms(3)]
    by simp_all
  show ?thesis
    unfolding facts by (simp add: ratio_def truediv_blank truediv_number)
qed

text \<open>An instance: the group of \<open>late_without_count\<close> gets neither an on-time rate nor
  an average arrival delay, where the quotients by its zero count are infinite.\<close>

theorem zero_denominator_null_witness:
  "\<not> mempty late_without_count \<and> set METRIC_FIELDS \<subseteq> set (mcolumns late_without_count) \<and>
   hd (mrecords (enrich_metrics late_without_count))
     \<in> set (mrecords (enrich_metrics late_without_count)) \<and>
   mcell_at (hd (mrecords (enrich_metrics late_without_count))) ''arr_delay_count''
     = Plain (Number 0) \<and>
   mcell_at (hd (mrecords (enrich_metrics late_without_count))) ''arr_delay_sum''
     = Plain (Number 40) \<and>
   mcell_at (hd (mrecords (enrich_metrics late_without_count))) ''arr_delay_over_15''
     = Plain (Number 1) \<and>
   mcell_at (hd (mrecords (enrich_metrics late_without_count))) ''on_time_rate'' = Plain Blank \<and>
   mcell_at (hd (mrecords (enrich_metrics late_without_count))) ''avg_arr_delay'' = Plain Blank \<and>
   truediv (Plain (Number 40)) (Plain (Number 0)) = Infinite True \<and>
   rsub1 (truediv (Plain (Number 1)) (Plain (Number 0))) = Infinite False"
proof -
  let ?E = "enrich_metrics late_without_count"
  have h1: "\<not> mempty late_without_count"
    by (simp add: mempty_def late_without_count_def)
  have h2: "set METRIC_FIELDS \<subseteq> set (mcolumns late_without_count)"
    by (auto simp: late_without_count_def)
  have "length (mrecords ?E) = length (mrecords late_without_count)"
    by (simp add: enrich_nonempty[OF h1] derive_length)
  then have "length (mrecords ?E) = 1"
    by (simp add: late_without_count_def)
  then obtain r where r: "mrecords ?E = [r]"
    by (cases "mrecords ?E") auto
  then have h3: "hd (mrecords ?E) \<in> set (mrecords ?E)"
    by simp
  have "mcol ?E ''arr_delay_count'' = mcol late_without_count ''arr_delay_count''"
    by (simp add: enrich_other)
  also have "\<dots> = [Plain (Number 0)]"
    by (simp add: late_without_count_def mcol_def mcell_at_def)
  finally have h4: "mcell_at (hd (mrecords ?E)) ''arr_delay_count'' = Plain (Number 0)"
    by (simp add: mcol_def r)
  have "mcol ?E ''arr_delay_sum'' = mcol late_without_count ''arr_delay_sum''"
    by (simp add: enrich_other)
  also have "\<dots> = [Plain (Number 40)]"
    by (simp add: late_without_count_def mcol_def mcell_at_def)
  finally have h5: "mcell_at (hd (mrecords ?E)) ''arr_delay_sum'' = Plain (Number 40)"
    by (simp add: mcol_def r)
  have "mcol ?E ''arr_delay_over_15'' = mcol late_without_count ''arr_delay_over_15''"
    by (simp add: enrich_other)
  also have "\<dots> = [Plain (Number 1)]"
    by (simp add: late_without_count_def mcol_def mcell_at_def)
  finally have h6: "mcell_at (hd (mrecords ?E)) ''arr_delay_over_15'' = Plain (Number 1)"
    by (simp add: mcol_def r)
  have inf: "truediv (Plain (Number 40)) (Plain (Number 0)) = Infinite True"
    "rsub1 (truediv (Plain (Number 1)) (Plain (Number 0))) = Infinite False"
    by (simp_all add: truediv_zero)
  from zero_denominator_null[OF h1 h2 h3] h1 h2 h3 h4 h5 h6 inf show ?thesis
    by simp
qed

subsection \<open>Flag normalisation\<close>

lemma length_normalize_flag: "length (normalize_flag overflow series) = length series"
  by (simp add: normalize_flag_def to_numeric_def fillna_def Let_def)

lemma normalize_flag_bool:
  "is_bool_dtype series \<Longrightarrow> normalize_flag overflow series = map bool_to_int64 series"
  by (simp add: normalize_flag_def)

lemma normalize_flag_numeric:
  "\<not> is_bool_dtype series \<Longrightarrow> \<exists>c \<in> set series. coerce_numeric c \<noteq> None \<Longrightarrow>
   normalize_flag overflow series =
     map (\<lambda>c. case coerce_numeric c of Some r \<Rightarrow> astype_int64 overflow r | None \<Rightarrow> 0) series"
  by (auto simp: normalize_flag_def to_numeric_def fillna_def Let_def list_ex_iff astype_int64_def
        py_trunc_def split: option.splits)

lemma astype_int64_flag:
  "astype_int64 overflow (case map_of flag_mapping s of Some r \<Rightarrow> r | None \<Rightarrow> 0) =
    (if s \<in> {codes ''Y'', codes ''YES'', codes ''TRUE'', codes ''T'', codes ''1''} then 1 else 0)"
proof -
  have m: "(case map_of flag_mapping s of Some r \<Rightarrow> r | None \<Rightarrow> 0) =
      (if s \<in> {codes ''Y'', codes ''YES'', codes ''TRUE'', codes ''T'', codes ''1''} then 1 else (0::rat))"
    by (simp add: flag_mapping_def)
  show ?thesis
    unfolding m by (simp add: astype_int64_def py_trunc_def)
qed

lemma normalize_flag_text:
  assumes "\<forall>c \<in> set series. coerce_numeric c = None"
  shows "normalize_flag overflow series =
     map (\<lambda>c. if upper (strip (astype_str c))
                  \<in> {codes ''Y'', codes ''YES'', codes ''TRUE'', codes ''T'', codes ''1''}
              then 1 else 0) series"
proof (cases "series = []")
  case True
  then show ?thesis by (simp add: normalize_flag_def)
next
  case False
  then obtain c where c: "c \<in> set series" by (cases series) auto
  with assms have "coerce_numeric c = None" by simp
  then have "\<not> (case c of Flag b \<Rightarrow> True | _ \<Rightarrow> False)" by (cases c) auto
  with c have nb: "\<not> is_bool_dtype series" by (auto simp: is_bool_dtype_def list_all_iff)
  from assms False nb show ?thesis
    by (simp add: normalize_flag_def to_numeric_def fillna_def Let_def list_ex_iff
        astype_int64_flag)
qed

text \<open>
  C8, as the code has it. Every value of a flag column gets one integer. In a boolean
  column \<open>True\<close> becomes 1 and \<open>False\<close> 0. In a column where at least one value is numeric,
  a numeric value becomes its integer part when that lies in the int64 range (so 0 and 1
  stay 0 and 1) and what the platform's cast gives otherwise, and every other value, any
  text included, becomes 0. In a column where no value is numeric, a text value becomes 1
  exactly when, stripped and in upper case, it is one of Y, YES, TRUE, T, 1, and 0
  otherwise; a missing value becomes 0.
\<close>

theorem normalize_flag_per_column:
  assumes "i < length series"
  shows "length (normalize_flag overflow series) = length series \<and>
    (is_bool_dtype series \<longrightarrow>
       (series ! i = Flag True \<longrightarrow> normalize_flag overflow series ! i = 1) \<and>
       (series ! i = Flag False \<longrightarrow> normalize_flag overflow series ! i = 0)) \<and>
    (\<not> is_bool_dtype series \<and> (\<exists>c \<in> set series. coerce_numeric c \<noteq> None) \<longrightarrow>
       (series ! i = Number 0 \<longrightarrow> normalize_flag overflow series ! i = 0) \<and>
       (series ! i = Number 1 \<longrightarrow> normalize_flag overflow series ! i = 1) \<and>
       (\<forall>r. series ! i = Number r \<and> - (2 ^ 63) \<le> py_trunc r \<and> py_trunc r < 2 ^ 63 \<longrightarrow>
            normalize_flag overflow series ! i = py_trunc r) \<and>
       (\<forall>r. series ! i = Number r \<and> \<not> (- (2 ^ 63) \<le> py_trunc r \<and> py_trunc r < 2 ^ 63) \<longrightarrow>
            normalize_flag overflow series ! i = overflow r) \<and>
       (\<forall>s. series ! i = Text s \<longrightarrow> normalize_flag overflow series ! i = 0) \<and>
       (series ! i = Blank \<longrightarrow> normalize_flag overflow series ! i = 0)) \<and>
    ((\<forall>c \<in> set series. coerce_numeric c = None) \<longrightarrow>
       (\<forall>s. series ! i = Text s \<longrightarrow>
          normalize_flag overflow series ! i =
            (if upper (strip s) \<in> {codes ''Y'', codes ''YES'', codes ''TRUE'', codes ''T'', codes ''1''}
             then 1 else 0)) \<and>
       (series ! i = Blank \<longrightarrow> normalize_flag overflow series ! i = 0))"
proof -
  have b_case: "is_bool_dtype series \<longrightarrow>
       (series ! i = Flag True \<longrightarrow> normalize_flag overflow series ! i = 1) \<and>
       (series ! i = Flag False \<longrightarrow> normalize_flag overflow series ! i = 0)"
    using assms by (simp add: normalize_flag_bool)
  have n_case: "\<not> is_bool_dtype series \<and> (\<exists>c \<in> set series. coerce_numeric c \<noteq> None) \<longrightarrow>
       (series ! i = Number 0 \<longrightarrow> normalize_flag overflow series ! i = 0) \<and>
       (series ! i = Number 1 \<longrightarrow> normalize_flag overflow series ! i = 1) \<and>
       (\<forall>r. series ! i = Number r \<and> - (2 ^ 63) \<le> py_trunc r \<and> py_trunc r < 2 ^ 63 \<longrightarrow>
            normalize_flag overflow series ! i = py_trunc r) \<and>
       (\<forall>r. series ! i = Number r \<and> \<not> (- (2 ^ 63) \<le> py_trunc r \<and> py_trunc r < 2 ^ 63) \<longrightarrow>
            normalize_flag overflow series ! i = overflow r) \<and>
       (\<forall>s. series ! i = Text s \<longrightarrow> normalize_flag overflow series ! i = 0) \<and>
       (series ! i = Blank \<longrightarrow> normalize_flag overflow series ! i = 0)"
  proof
    assume "\<not> is_bool_dtype series \<and> (\<exists>c \<in> set series. coerce_numeric c \<noteq> None)"
    then have eq: "normalize_flag overflow series =
       map (\<lambda>c. case coerce_numeric c of Some r \<Rightarrow> astype_int64 overflow r | None \<Rightarrow> 0) series"
      by (simp add: normalize_flag_numeric)
    have z: "astype_int64 overflow 0 = 0" "astype_int64 overflow 1 = 1"
      by (simp_all add: astype_int64_def py_trunc_def)
    from assms show "(series ! i = Number 0 \<longrightarrow> normalize_flag overflow series ! i = 0) \<and>
       (series ! i = Number 1 \<longrightarrow> normalize_flag overflow series ! i = 1) \<and>
       (\<forall>r. series ! i = Number r \<and> - (2 ^ 63) \<le> py_trunc r \<and> py_trunc r < 2 ^ 63 \<longrightarrow>
            normalize_flag overflow series ! i = py_trunc r) \<and>
       (\<forall>r. series ! i = Number r \<and> \<not> (- (2 ^ 63) \<le> py_trunc r \<and> py_trunc r < 2 ^ 63) \<longrightarrow>
            normalize_flag overflow series ! i = overflow r) \<and>
       (\<forall>s. series ! i = Text s \<longrightarrow> normalize_flag overflow series ! i = 0) \<and>
       (series ! i = Blank \<longrightarrow> normalize_flag overflow series ! i = 0)"
      by (simp add: eq z) (simp add: astype_int64_def)
  qed
  have t_case: "(\<forall>c \<in> set series. coerce_numeric c = None) \<longrightarrow>
       (\<forall>s. series ! i = Text s \<longrightarrow>
          normalize_flag overflow series ! i =
            (if upper (strip s) \<in> {codes ''Y'', codes ''YES'', codes ''TRUE'', codes ''T'', codes ''1''}
             then 1 else 0)) \<and>
       (series ! i = Blank \<longrightarrow> normalize_flag overflow series ! i = 0)"
  proof
    assume "\<forall>c \<in> set series. coerce_numeric c = None"
    then have eq: "normalize_flag overflow series =
       map (\<lambda>c. if upper (strip (astype_str c))
                    \<in> {codes ''Y'', codes ''YES'', codes ''TRUE'', codes ''T'', codes ''1''}
                then 1 else 0) series"
      by (rule normalize_flag_text)
    have nan: "upper (strip ''nan'')
        \<notin> {codes ''Y'', codes ''YES'', codes ''TRUE'', codes ''T'', codes ''1''}"
      by (simp add: upper_def strip_def is_space_def upper_char_def codes_def)
    from assms show "(\<forall>s. series ! i = Text s \<longrightarrow>
          normalize_flag overflow series ! i =
            (if upper (strip s) \<in> {codes ''Y'', codes ''YES'', codes ''TRUE'', codes ''T'', codes ''1''}
             then 1 else 0)) \<and>
       (series ! i = Blank \<longrightarrow> normalize_flag overflow series ! i = 0)"
      using nan by (simp add: eq)
  qed
  from b_case n_case t_case show ?thesis
    by (simp only: length_normalize_flag simp_thms)
qed

text \<open>The text \<open>Y\<close> is read as 0 next to a numeric value, and as 1 on its own, whatever
  the platform's cast does.\<close>

theorem normalize_flag_counterexample:
  "normalize_flag (\<lambda>r. 0) [Number 1, Text ''Y''] = [1, 0] \<and>
   normalize_flag (\<lambda>r. 0) [Text ''Y''] = [1]"
  by (simp add: normalize_flag_def is_bool_dtype_def to_numeric_def fillna_def astype_int64_def
        py_trunc_def flag_mapping_def upper_def strip_def is_space_def upper_char_def codes_def)

text \<open>Instances: a text column (with a no-break space to strip), a mixed column with a
  value beyond the int64 range, and a boolean column.\<close>

theorem normalize_flag_per_column_witness:
  "(1::nat) < length text_flags \<and>
   text_flags ! 1 = Text [CHR '' '', CHR ''y'', CHR ''e'', CHR ''s'', CHR 0xA0] \<and>
   normalize_flag (\<lambda>r. 7) text_flags ! 1 = 1 \<and>
   (2::nat) < length mixed_flags \<and> \<not> is_bool_dtype mixed_flags \<and>
   (\<exists>c \<in> set mixed_flags. coerce_numeric c \<noteq> None) \<and>
   mixed_flags ! 0 = Number (3 / 2) \<and>
   - (2 ^ 63) \<le> py_trunc (3 / 2) \<and> py_trunc (3 / 2) < 2 ^ 63 \<and>
   normalize_flag (\<lambda>r. 7) mixed_flags ! 0 = py_trunc (3 / 2) \<and> py_trunc (3 / 2) = 1 \<and>
   mixed_flags ! 2 = Number (10 ^ 30) \<and>
   \<not> (- (2 ^ 63) \<le> py_trunc (10 ^ 30) \<and> py_trunc (10 ^ 30) < 2 ^ 63) \<and>
   normalize_flag (\<lambda>r. 7) mixed_flags ! 2 = 7 \<and>
   (0::nat) < length [Flag True] \<and> is_bool_dtype [Flag True] \<and>
   normalize_flag (\<lambda>r. 7) [Flag True] ! 0 = 1"
proof -
  have len: "(1::nat) < length text_flags" "(0::nat) < length mixed_flags"
    "(2::nat) < length mixed_flags"
    by (simp_all add: text_flags_def mixed_flags_def)
  have txt1: "text_flags ! 1 = Text [CHR '' '', CHR ''y'', CHR ''e'', CHR ''s'', CHR 0xA0]"
    by (simp add: text_flags_def)
  have nonum: "\<forall>c \<in> set text_flags. coerce_numeric c = None"
    by (simp add: text_flags_def)
  from normalize_flag_per_column[OF len(1), of "\<lambda>r. 7"] nonum
  have "\<forall>s. text_flags ! 1 = Text s \<longrightarrow>
          normalize_flag (\<lambda>r. 7) text_flags ! 1 =
            (if upper (strip s) \<in> {codes ''Y'', codes ''YES'', codes ''TRUE'', codes ''T'', codes ''1''}
             then 1 else 0)"
    by blast
  with txt1 have "normalize_flag (\<lambda>r. 7) text_flags ! 1 =
      (if upper (strip [CHR '' '', CHR ''y'', CHR ''e'', CHR ''s'', CHR 0xA0])
            \<in> {codes ''Y'', codes ''YES'', codes ''TRUE'', codes ''T'', codes ''1''}
       then 1 else 0)"
    by blast
  also have "\<dots> = 1"
    by (simp add: upper_def strip_def is_space_def upper_char_def codes_def)
  finally have a: "normalize_flag (\<lambda>r. 7) text_flags ! 1 = 1" .
  have nb: "\<not> is_bool_dtype mixed_flags"
    by (simp add: mixed_flags_def is_bool_dtype_def)
  have ex: "\<exists>c \<in> set mixed_flags. coerce_numeric c \<noteq> None"
    by (simp add: mixed_flags_def)
  have m0: "mixed_flags ! 0 = Number (3 / 2)" and m2: "mixed_flags ! 2 = Number (10 ^ 30)"
    by (simp_all add: mixed_flags_def)
  have r0: "- (2 ^ 63) \<le> py_trunc (3 / 2) \<and> py_trunc (3 / 2) < 2 ^ 63"
    and v0: "py_trunc (3 / 2) = 1"
    and r2: "\<not> (- (2 ^ 63) \<le> py_trunc (10 ^ 30) \<and> py_trunc (10 ^ 30) < 2 ^ 63)"
    by code_simp+
  from normalize_flag_per_column[OF len(2), of "\<lambda>r. 7"] nb ex
  have "\<forall>r. mixed_flags ! 0 = Number r \<and> - (2 ^ 63) \<le> py_trunc r \<and> py_trunc r < 2 ^ 63 \<longrightarrow>
            normalize_flag (\<lambda>r. 7) mixed_flags ! 0 = py_trunc r"
    by blast
  with m0 r0 have b: "normalize_flag (\<lambda>r. 7) mixed_flags ! 0 = py_trunc (3 / 2)"
    by blast
  from normalize_flag_per_column[OF len(3), of "\<lambda>r. 7"] nb ex
  have "\<forall>r. mixed_flags ! 2 = Number r \<and>
            \<not> (- (2 ^ 63) \<le> py_trunc r \<and> py_trunc r < 2 ^ 63) \<longrightarrow>
            normalize_flag (\<lambda>r. 7) mixed_flags ! 2 = (\<lambda>r. 7) r"
    by blast
  with m2 r2 have c: "normalize_flag (\<lambda>r. 7) mixed_flags ! 2 = 7"
    by blast
  have l1: "(0::nat) < length [Flag True]" and bd: "is_bool_dtype [Flag True]"
    by (simp_all add: is_bool_dtype_def)
  from normalize_flag_per_column[OF l1, of "\<lambda>r. 7"] bd
  have d: "normalize_flag (\<lambda>r. 7) [Flag True] ! 0 = 1"
    by simp
  show ?thesis
    by (intro conjI len txt1 a nb ex m0 b v0 m2 r2 c l1 bd d conjunct1[OF r0] conjunct2[OF r0])
qed

subsection \<open>Column resolution\<close>

lemma first_alias_find: "first_alias cols aliases = find (\<lambda>alias. alias \<in> set cols) aliases"
  by (induction aliases) auto

lemma map_of_resolve_columns:
  "map_of (resolve_columns cols cs cm) c =
    (if c \<in> set cs
     then (case first_alias cols (aliases_of c) of Some a \<Rightarrow> Some a | None \<Rightarrow> map_of cm c)
     else map_of cm c)"
  by (induction cs arbitrary: cm) (auto simp: update_conv' split: option.splits)


lemma distinct_resolve_columns:
  "distinct (map fst cm) \<Longrightarrow> distinct (map fst (resolve_columns cols cs cm))"
  by (induction cs arbitrary: cm) (auto simp: distinct_update split: option.splits)

text \<open>
  C5. For every header, the resolver fails, with the \<open>ValueError\<close> that plays the role of
  the schema error, exactly when no alias of the date field is in the header, and it fails
  in no other way. When it succeeds, each canonical field is mapped to the first of its
  aliases, in declared order, that the header contains, a field without such an alias is
  left out of the map, and the columns to read are the aliases the map uses.
\<close>

theorem alias_resolution:
  "(determine_available_columns header = Inl ValueError \<longleftrightarrow>
      (\<forall>alias \<in> set (aliases_of ''FL_DATE''). alias \<notin> set header)) \<and>
   determine_available_columns header \<noteq> Inl KeyError \<and>
   (\<forall>usecols column_map. determine_available_columns header = Inr (usecols, column_map) \<longrightarrow>
      (\<forall>canonical \<in> set DESIRED_COLUMNS.
          map_of column_map canonical = find (\<lambda>alias. alias \<in> set header) (aliases_of canonical)) \<and>
      (\<forall>canonical. canonical \<notin> set DESIRED_COLUMNS \<longrightarrow> map_of column_map canonical = None) \<and>
      set usecols = {alias. \<exists>canonical. map_of column_map canonical = Some alias})"
proof -
  let ?cm = "resolve_columns header DESIRED_COLUMNS []"
  have m: "\<And>c. map_of ?cm c =
      (if c \<in> set DESIRED_COLUMNS then find (\<lambda>alias. alias \<in> set header) (aliases_of c) else None)"
    by (simp add: map_of_resolve_columns first_alias_find split: option.splits)
  have d: "''FL_DATE'' \<in> set DESIRED_COLUMNS" by (simp add: DESIRED_COLUMNS_def)
  have date: "map_of ?cm ''FL_DATE'' = None \<longleftrightarrow>
      (\<forall>alias \<in> set (aliases_of ''FL_DATE''). alias \<notin> set header)"
    unfolding m using d by (auto simp: find_None_iff)
  have usecols: "set (sort (remdups (map snd ?cm))) = {alias. \<exists>canonical. map_of ?cm canonical = Some alias}"
    using ran_distinct[OF distinct_resolve_columns[of "[]" header DESIRED_COLUMNS]]
    by (simp add: ran_def)
  show ?thesis
    unfolding determine_available_columns_def Let_def
    using date m usecols by auto
qed

text \<open>Instances: a legacy header with a date column, and one without.\<close>

lemma legacy_header_resolved:
  "determine_available_columns [''FlightDate'', ''ArrDelay'', ''Origin''] =
     Inr ([''ArrDelay'', ''FlightDate'', ''Origin''],
          [(''FL_DATE'', ''FlightDate''), (''ORIGIN'', ''Origin''), (''ARR_DELAY'', ''ArrDelay'')])"
  by code_simp

lemma aliases_of_ARR_DELAY:
  "aliases_of ''ARR_DELAY'' = [''ARR_DELAY'', ''ArrDelay'', ''ArrDelayMinutes'']"
  by (simp add: aliases_of_def COLUMN_ALIASES_def)

lemma aliases_of_FL_DATE: "aliases_of ''FL_DATE'' = [''FL_DATE'', ''FlightDate'']"
  by (simp add: aliases_of_def COLUMN_ALIASES_def)

theorem alias_resolution_witness:
  "aliases_of ''FL_DATE'' = [''FL_DATE'', ''FlightDate''] \<and>
   ''FL_DATE'' \<notin> set [''ArrDelay'', ''Origin''] \<and> ''FlightDate'' \<notin> set [''ArrDelay'', ''Origin''] \<and>
   determine_available_columns [''ArrDelay'', ''Origin''] = Inl ValueError \<and>
   determine_available_columns [''FlightDate'', ''ArrDelay'', ''Origin''] =
     Inr ([''ArrDelay'', ''FlightDate'', ''Origin''],
          [(''FL_DATE'', ''FlightDate''), (''ORIGIN'', ''Origin''), (''ARR_DELAY'', ''ArrDelay'')]) \<and>
   ''ARR_DELAY'' \<in> set DESIRED_COLUMNS \<and>
   find (\<lambda>alias. alias \<in> set [''FlightDate'', ''ArrDelay'', ''Origin'']) (aliases_of ''ARR_DELAY'')
     = Some ''ArrDelay''"
  using alias_resolution[of "[''ArrDelay'', ''Origin'']"]
    alias_resolution[of "[''FlightDate'', ''ArrDelay'', ''Origin'']"]
  by (simp add: legacy_header_resolved aliases_of_ARR_DELAY aliases_of_FL_DATE DESIRED_COLUMNS_def)

subsection \<open>Chunk normalisation\<close>

lemma length_col [simp]: "length (col df c) = length (records df)"
  by (simp add: col_def)

lemma length_assign:
  "length vs = length (records df) \<Longrightarrow> length (records (assign df c vs)) = length (records df)"
  by (simp add: assign_def)

lemma col_assign:
  "length vs = length (records df) \<Longrightarrow> col (assign df c vs) x = (if x = c then vs else col df x)"
  by (auto simp: assign_def col_def cell_at_def 
      intro!: nth_equalityI)

lemma columns_assign: "set (columns (assign df c vs)) = insert c (set (columns df))"
  by (auto simp: assign_def)

lemma length_delay_columns:
  "length (records (delay_columns c over chunk)) = length (records chunk)"
  by (simp add: delay_columns_def numeric_column_def Let_def length_assign to_numeric_def gt_int64_def)

lemma columns_delay_columns:
  "set (columns (delay_columns c over chunk)) =
    (if c \<in> set (columns chunk) then insert over (set (columns chunk)) else set (columns chunk))"
  by (auto simp: delay_columns_def numeric_column_def Let_def columns_assign)

lemma col_delay_columns:
  "c \<noteq> over \<Longrightarrow> col (delay_columns c over chunk) x =
    (if c \<in> set (columns chunk)
     then (if x = over then map (over_cell \<circ> delay_cell) (col chunk c)
           else if x = c then map delay_cell (col chunk c) else col chunk x)
     else col chunk x)"
  by (simp add: delay_columns_def numeric_column_def Let_def col_assign length_assign
      to_numeric_def gt_int64_def over_cell_def delay_cell_def comp_def)

lemma length_flag_column:
  "length (records (flag_column overflow c chunk)) = length (records chunk)"
  by (simp add: flag_column_def length_assign length_normalize_flag)

lemma columns_flag_column: "set (columns (flag_column overflow c chunk)) = set (columns chunk)"
  by (auto simp: flag_column_def columns_assign)

lemma col_flag_column:
  "col (flag_column overflow c chunk) x =
    (if c \<in> set (columns chunk) \<and> x = c then map of_int64 (normalize_flag overflow (col chunk c))
     else col chunk x)"
  by (simp add: flag_column_def col_assign length_normalize_flag)

lemma length_cause_column:
  "length (records (cause_column c chunk)) = length (records chunk)"
  by (simp add: cause_column_def length_assign to_numeric_def fillna_def)

lemma columns_cause_column: "set (columns (cause_column c chunk)) = set (columns chunk)"
  by (auto simp: cause_column_def columns_assign)

lemma col_cause_column:
  "col (cause_column c chunk) x =
    (if c \<in> set (columns chunk) \<and> x = c then map cause_cell (col chunk c) else col chunk x)"
  by (simp add: cause_column_def col_assign to_numeric_def fillna_def cause_cell_def comp_def)

lemma cause_cell_idem [simp]: "cause_cell (cause_cell v) = cause_cell v"
  by (simp add: cause_cell_def)

lemma length_fold_cause:
  "length (records (fold cause_column cs chunk)) = length (records chunk)"
  by (induction cs arbitrary: chunk) (simp_all add: length_cause_column)

lemma columns_fold_cause: "set (columns (fold cause_column cs chunk)) = set (columns chunk)"
  by (induction cs arbitrary: chunk) (simp_all add: columns_cause_column)

lemma col_fold_cause:
  "col (fold cause_column cs chunk) x =
    (if x \<in> set cs \<and> x \<in> set (columns chunk) then map cause_cell (col chunk x) else col chunk x)"
  by (induction cs arbitrary: chunk)
     (auto simp: col_cause_column columns_cause_column)

lemma preprocess_chunk_eq:
  "preprocess_chunk overflow chunk =
    (if ''FL_DATE'' \<notin> set (columns chunk) then Inl KeyError
     else Inr (fold cause_column (map fst DELAY_CAUSE_COLUMNS)
            (flag_column overflow ''DIVERTED'' (flag_column overflow ''CANCELLED''
              (delay_columns ''DEP_DELAY'' ''dep_delay_over_15''
                (delay_columns ''ARR_DELAY'' ''arr_delay_over_15'' (dated chunk)))))))"
  by (simp add: preprocess_chunk_def dated_def Let_def)

lemma records_dated:
  "records (dated chunk) =
    map (\<lambda>r. r(''FL_DATE'' \<mapsto> coerce_datetime (cell_at r ''FL_DATE''),
              ''month'' \<mapsto> to_period_M (coerce_datetime (cell_at r ''FL_DATE''))))
      (valid_rows chunk)"
  by (simp add: dated_def Let_def assign_def dropna_def col_def to_datetime_def valid_rows_def
      zip_map2 zip_same_conv_map filter_map comp_def cell_at_def)

lemma columns_dated:
  "set (columns (dated chunk)) = insert ''FL_DATE'' (insert ''month'' (set (columns chunk)))"
  by (auto simp: dated_def Let_def columns_assign dropna_def)

lemma col_dated:
  "x \<noteq> ''FL_DATE'' \<Longrightarrow> x \<noteq> ''month'' \<Longrightarrow>
   col (dated chunk) x = map (\<lambda>r. cell_at r x) (valid_rows chunk)"
  by (simp add: col_def records_dated cell_at_def comp_def)

lemma dated_eq:
  "dated chunk =
    \<lparr>columns =
       (let cs = (if ''FL_DATE'' \<in> set (columns chunk) then columns chunk
                  else columns chunk @ [''FL_DATE''])
        in if ''month'' \<in> set cs then cs else cs @ [''month'']),
     records =
       map (\<lambda>r. r(''FL_DATE'' \<mapsto> coerce_datetime (cell_at r ''FL_DATE''),
              ''month'' \<mapsto> to_period_M (coerce_datetime (cell_at r ''FL_DATE''))))
         (valid_rows chunk)\<rparr>"
  using records_dated[of chunk]
  by (simp add: dated_def Let_def assign_def dropna_def)

lemma normalized_delay:
  assumes "preprocess_chunk overflow chunk = Inr N"
  shows "''ARR_DELAY'' \<in> set (columns chunk) \<Longrightarrow>
           col N ''ARR_DELAY'' = map (\<lambda>r. delay_cell (cell_at r ''ARR_DELAY'')) (valid_rows chunk)"
    and "''ARR_DELAY'' \<in> set (columns chunk) \<Longrightarrow>
           col N ''arr_delay_over_15'' = map over_cell (col N ''ARR_DELAY'')"
    and "''DEP_DELAY'' \<in> set (columns chunk) \<Longrightarrow>
           col N ''DEP_DELAY'' = map (\<lambda>r. delay_cell (cell_at r ''DEP_DELAY'')) (valid_rows chunk)"
    and "''DEP_DELAY'' \<in> set (columns chunk) \<Longrightarrow>
           col N ''dep_delay_over_15'' = map over_cell (col N ''DEP_DELAY'')"
  using assms
  by (auto simp: preprocess_chunk_eq col_cause_column columns_cause_column col_flag_column
      col_delay_columns columns_delay_columns columns_flag_column columns_dated col_dated
      DELAY_CAUSE_COLUMNS_def comp_def
      split: if_splits)

lemma col_rows:
  "col df a = map f (col df b) \<Longrightarrow> r \<in> set (records df) \<Longrightarrow> cell_at r a = f (cell_at r b)"
  by (simp add: col_def)

lemma delay_cell_cases: "delay_cell v = Blank \<or> (\<exists>x. delay_cell v = Number x)"
  by (cases v) (simp_all add: delay_cell_def of_float_def)

lemma series_sum_over:
  "series_sum (map (\<lambda>r. over_cell (cell_at r c)) rows) =
     of_nat (length (filter (\<lambda>r. \<exists>x. cell_at r c = Number x \<and> 15 < x) rows))"
  by (induction rows) (auto simp: series_sum_def over_cell_def of_int64_def split: cell.splits)

lemma preprocess_Inr:
  "''FL_DATE'' \<in> set (columns chunk) \<Longrightarrow> preprocess_chunk overflow chunk = Inr (projr (preprocess_chunk overflow chunk))"
  by (simp add: preprocess_chunk_eq)

lemma threshold_value:
  "col threshold_normalized ''ARR_DELAY'' = [Number 15, Number (1501 / 100)]"
  "col threshold_normalized ''arr_delay_over_15'' = [Number 0, Number 1]"
  "col threshold_normalized ''DEP_DELAY'' = [Number 16, Blank]"
  "col threshold_normalized ''dep_delay_over_15'' = [Number 1, Number 0]"
  "aggregate (records threshold_normalized) (''arr_delay_over_15'', Sum) = Number 1"
  by code_simp+

lemma col_nth:
  "col df c = vs \<Longrightarrow> i < length vs \<Longrightarrow>
   cell_at (records df ! i) c = vs ! i \<and> records df ! i \<in> set (records df)"
  by (auto simp: col_def)

lemma normalized_cause:
  assumes "preprocess_chunk overflow chunk = Inr N"
    and "cause \<in> set (map fst DELAY_CAUSE_COLUMNS)" and "cause \<in> set (columns chunk)"
  shows "col N cause = map (\<lambda>r. cause_cell (cell_at r cause)) (valid_rows chunk)"
proof -
  from assms(2) have ne: "cause \<noteq> ''FL_DATE''" "cause \<noteq> ''month''" "cause \<noteq> ''ARR_DELAY''"
    "cause \<noteq> ''DEP_DELAY''" "cause \<noteq> ''CANCELLED''" "cause \<noteq> ''DIVERTED''"
    "cause \<noteq> ''arr_delay_over_15''" "cause \<noteq> ''dep_delay_over_15''"
    by (auto simp: DELAY_CAUSE_COLUMNS_def)
  from assms(1) have N: "N = fold cause_column (map fst DELAY_CAUSE_COLUMNS)
            (flag_column overflow ''DIVERTED'' (flag_column overflow ''CANCELLED''
              (delay_columns ''DEP_DELAY'' ''dep_delay_over_15''
                (delay_columns ''ARR_DELAY'' ''arr_delay_over_15'' (dated chunk)))))"
    by (auto simp: preprocess_chunk_eq split: if_splits)
  show ?thesis
    unfolding N using assms(2,3) ne
    by (simp add: col_fold_cause col_flag_column col_delay_columns
      columns_delay_columns columns_flag_column columns_dated col_dated comp_def)
qed

lemma series_sum_skip:
  "series_sum (map (\<lambda>r. cell_at r c) (filter (\<lambda>r. \<not> isna (cell_at r c)) rows)) =
   series_sum (map (\<lambda>r. cell_at r c) rows)"
  by (induction rows) (auto simp: series_sum_def split: cell.splits)

lemma series_count_skip:
  "series_count (map (\<lambda>r. cell_at r c) rows) = length (filter (\<lambda>r. \<not> isna (cell_at r c)) rows)"
  by (induction rows) (auto simp: series_count_def)

text \<open>
  C9. Missing-value asymmetry: after normalisation, a delay-cause value that is missing or
  unparsable is the number 0, while a missing or unparsable arrival or departure delay
  stays missing; a missing value adds nothing to the sum of a group and is not counted.
\<close>

theorem missing_value_asymmetry:
  assumes "preprocess_chunk overflow chunk = Inr normalized"
  shows "(\<forall>cause \<in> set (map fst DELAY_CAUSE_COLUMNS). cause \<in> set (columns chunk) \<longrightarrow>
            col normalized cause =
              map (\<lambda>r. case coerce_numeric (cell_at r cause) of
                         Some x \<Rightarrow> Number x | None \<Rightarrow> Number 0) (valid_rows chunk)) \<and>
         (\<forall>delay \<in> {''ARR_DELAY'', ''DEP_DELAY''}. delay \<in> set (columns chunk) \<longrightarrow>
            col normalized delay =
              map (\<lambda>r. case coerce_numeric (cell_at r delay) of
                         Some x \<Rightarrow> Number x | None \<Rightarrow> Blank) (valid_rows chunk)) \<and>
         (\<forall>rows c.
            aggregate rows (c, Sum) = aggregate (filter (\<lambda>r. \<not> isna (cell_at r c)) rows) (c, Sum) \<and>
            aggregate rows (c, Count) =
              of_int64 (int (length (filter (\<lambda>r. \<not> isna (cell_at r c)) rows))))"
proof (intro conjI ballI impI allI)
  fix cause
  assume "cause \<in> set (map fst DELAY_CAUSE_COLUMNS)" "cause \<in> set (columns chunk)"
  from normalized_cause[OF assms this]
  show "col normalized cause =
      map (\<lambda>r. case coerce_numeric (cell_at r cause) of
                 Some x \<Rightarrow> Number x | None \<Rightarrow> Number 0) (valid_rows chunk)"
    by (simp add: cause_cell_def option.case_distrib)
next
  fix delay
  assume d: "delay \<in> {''ARR_DELAY'', ''DEP_DELAY''}" "delay \<in> set (columns chunk)"
  have e: "delay_cell v = (case coerce_numeric v of Some x \<Rightarrow> Number x | None \<Rightarrow> Blank)" for v
    by (simp add: delay_cell_def of_float_def)
  from d normalized_delay(1,3)[OF assms]
  show "col normalized delay =
      map (\<lambda>r. case coerce_numeric (cell_at r delay) of
                 Some x \<Rightarrow> Number x | None \<Rightarrow> Blank) (valid_rows chunk)"
    by (auto simp: e)
next
  fix rows c
  show "aggregate rows (c, Sum) = aggregate (filter (\<lambda>r. \<not> isna (cell_at r c)) rows) (c, Sum)"
    by (simp add: series_sum_skip)
  show "aggregate rows (c, Count) =
      of_int64 (int (length (filter (\<lambda>r. \<not> isna (cell_at r c)) rows)))"
    by (simp add: series_count_skip)
qed

lemma gaps_value:
  "col gaps_normalized ''CARRIER_DELAY'' = [Number 0, Number 0, Number 7]"
  "col gaps_normalized ''ARR_DELAY'' = [Blank, Blank, Number 7]"
  "aggregate (records gaps_normalized) (''ARR_DELAY'', Count) = Number 1"
  "aggregate (records gaps_normalized) (''ARR_DELAY'', Sum) = Number 7"
  "aggregate (records gaps_normalized) (''CARRIER_DELAY'', Sum) = Number 7"
  by code_simp+

text \<open>An instance: of three flights one has a known arrival delay; the count is 1 and
  the causes of the other two are 0.\<close>

theorem missing_value_asymmetry_witness:
  "preprocess_chunk (\<lambda>r. 0) gaps_chunk = Inr gaps_normalized \<and>
   ''CARRIER_DELAY'' \<in> set (map fst DELAY_CAUSE_COLUMNS) \<and>
   ''CARRIER_DELAY'' \<in> set (columns gaps_chunk) \<and> ''ARR_DELAY'' \<in> set (columns gaps_chunk) \<and>
   col gaps_normalized ''CARRIER_DELAY'' = [Number 0, Number 0, Number 7] \<and>
   col gaps_normalized ''ARR_DELAY'' = [Blank, Blank, Number 7] \<and>
   aggregate (records gaps_normalized) (''ARR_DELAY'', Count) = Number 1 \<and>
   aggregate (records gaps_normalized) (''ARR_DELAY'', Sum) = Number 7"
proof -
  have h: "preprocess_chunk (\<lambda>r. 0) gaps_chunk = Inr gaps_normalized"
    unfolding gaps_normalized_def
    by (rule preprocess_Inr) (simp add: gaps_chunk_def)
  from missing_value_asymmetry[OF h] h gaps_value show ?thesis
    by (simp add: DELAY_CAUSE_COLUMNS_def gaps_chunk_def)
qed

subsection \<open>The additive merge\<close>

lemma and_then_Inr [simp]: "and_then (Inr x) f = f x"
  by (simp add: and_then_def)

lemma and_then_Inl [simp]: "and_then (Inl e) f = Inl e"
  by (simp add: and_then_def)

lemma dom_merge_stats [simp]: "dom (merge_stats fs row stats) = dom stats"
  by (auto simp: merge_stats_def dom_def split: option.splits cell.splits)

lemma merge_stats_step:
  assumes "field \<notin> set rest" and "stats field = Some v" and "row field = Some (Number x)"
  shows "merge_stats rest row (stats(field \<mapsto> add_partial field x v))
         = merge_stats (field # rest) row stats"
  using assms by (auto simp: merge_stats_def fun_eq_iff split: option.splits cell.splits)

lemma update_fields_merge:
  "distinct fs \<Longrightarrow> numeric_row fs row \<Longrightarrow> set fs \<subseteq> dom stats \<Longrightarrow>
   update_fields fs row stats = Inr (merge_stats (removeAll ''flights'' fs) row stats)"
proof (induction fs arbitrary: stats)
  case Nil
  then show ?case by (simp add: merge_stats_def)
next
  case (Cons field rest)
  show ?case
  proof (cases "field = ''flights''")
    case True
    with Cons show ?thesis by (simp add: numeric_row_def)
  next
    case False
    from Cons.prems obtain x v where x: "row field = Some (Number x)" and v: "stats field = Some v"
      by (auto simp: numeric_row_def)
    let ?s = "stats(field \<mapsto> add_partial field x v)"
    from Cons.prems have d: "distinct rest" "numeric_row rest row" "set rest \<subseteq> dom ?s"
      "field \<notin> set rest"
      by (auto simp: numeric_row_def)
    have nr: "field \<notin> set (removeAll ''flights'' rest)" using d(4) by simp
    have "update_fields (field # rest) row stats = update_fields rest row ?s"
      using False x v by (simp add: getitem_def iadd_def add_partial_def)
    also have "\<dots> = Inr (merge_stats (removeAll ''flights'' rest) row ?s)"
      by (rule Cons.IH[OF d(1,2,3)])
    also have "merge_stats (removeAll ''flights'' rest) row ?s
        = merge_stats (field # removeAll ''flights'' rest) row stats"
      by (rule merge_stats_step[of field "removeAll ''flights'' rest" stats v row x, OF nr v x])
    finally show ?thesis using False by simp
  qed
qed

lemma flights_not_sum: "''flights'' \<notin> SUM_FIELDS"
  by (simp add: SUM_FIELDS_def COUNT_FIELDS_def)

lemma update_row_merge:
  assumes "distinct cols" "''flights'' \<in> set cols" "numeric_row cols row" "set cols \<subseteq> dom stats"
  shows "update_row cols row stats = Inr (merge_stats cols row stats)"
proof -
  from assms(2,4) have "''flights'' \<in> dom stats" by auto
  then obtain v where v: "stats ''flights'' = Some v" by auto
  from assms(2,3) obtain x where x: "row ''flights'' = Some (Number x)"
    by (auto simp: numeric_row_def)
  let ?s = "stats(''flights'' \<mapsto> add_partial ''flights'' x v)"
  have "update_row cols row stats = update_fields cols row ?s"
    using x v by (simp add: update_row_def getitem_def iadd_def add_partial_def flights_not_sum)
  also have "\<dots> = Inr (merge_stats (removeAll ''flights'' cols) row ?s)"
    using assms by (intro update_fields_merge) auto
  also have "merge_stats (removeAll ''flights'' cols) row ?s
      = merge_stats (''flights'' # removeAll ''flights'' cols) row stats"
    by (rule merge_stats_step[of "''flights''" "removeAll ''flights'' cols" stats v row x, OF _ v x])
       simp
  also have "\<dots> = merge_stats cols row stats"
    using assms(2) by (auto simp: merge_stats_def fun_eq_iff)
  finally show ?thesis .
qed

lemma table_get_update:
  "table_get (AList.update k s t) k' = (if k' = k then s else table_get t k')"
  by (simp add: table_get_def update_conv')

lemma update_rows_merge:
  assumes cols: "distinct cols" "''flights'' \<in> set cols" "set cols \<subseteq> dom new_stats"
  shows "distinct (map fst groups) \<Longrightarrow> \<forall>row \<in> snd ` set groups. numeric_row cols row \<Longrightarrow>
     \<forall>k s. map_of t k = Some s \<longrightarrow> set cols \<subseteq> dom s \<Longrightarrow>
     \<exists>t'. update_rows cols groups t = Inr t' \<and>
       (\<forall>k. map_of t' k =
          (case map_of groups k of
             Some row \<Rightarrow> Some (merge_stats cols row (table_get t k))
           | None \<Rightarrow> map_of t k))"
proof (induction groups arbitrary: t)
  case Nil
  then show ?case by simp
next
  case (Cons g rest)
  obtain k row where g: "g = (k, row)" by (cases g)
  have dom_get: "set cols \<subseteq> dom (table_get t k)"
    using Cons.prems(3) cols(3) by (auto simp: table_get_def split: option.splits)
  from Cons.prems(2) g have nr: "numeric_row cols row" by simp
  let ?s = "merge_stats cols row (table_get t k)"
  let ?t = "AList.update k ?s t"
  have step: "update_rows cols (g # rest) t = update_rows cols rest ?t"
    by (simp add: g update_row_merge[OF cols(1,2) nr dom_get])
  have inv: "\<forall>k' s. map_of ?t k' = Some s \<longrightarrow> set cols \<subseteq> dom s"
    using Cons.prems(3) dom_get by (auto simp: update_conv')
  from Cons.prems(1) have d: "distinct (map fst rest)" by simp
  from Cons.prems(2) have n: "\<forall>row \<in> snd ` set rest. numeric_row cols row" by simp
  from Cons.IH[OF d n inv] obtain t' where t': "update_rows cols rest ?t = Inr t'"
    and m: "\<forall>k'. map_of t' k' =
          (case map_of rest k' of
             Some row \<Rightarrow> Some (merge_stats cols row (table_get ?t k'))
           | None \<Rightarrow> map_of ?t k')"
    by blast
  from Cons.prems(1) g have knot: "map_of rest k = None"
    by (simp add: map_of_eq_None_iff)
  have "\<forall>k'. map_of t' k' =
          (case map_of (g # rest) k' of
             Some row \<Rightarrow> Some (merge_stats cols row (table_get t k'))
           | None \<Rightarrow> map_of t k')"
    using m knot by (auto simp: g table_get_update update_conv' split: option.splits)
  with step t' show ?case by simp
qed

lemma aggregate_num: "aggregate rows src = Number (agg_num rows src)"
  by (cases "(rows, src)" rule: agg_num.cases) (simp_all add: of_int64_def)

lemma map_of_partial:
  "map_of (map (\<lambda>(name, src). (name, g src)) spec) f = map_option g (map_of spec f)"
  by (induction spec) auto

lemma merge_partial:
  "merge_stats (map fst spec) (map_of (map (\<lambda>(name, src). (name, aggregate rows src)) spec)) stats
     = merged spec rows stats"
proof
  fix f
  show "merge_stats (map fst spec) (map_of (map (\<lambda>(name, src). (name, aggregate rows src)) spec)) stats f
     = merged spec rows stats f"
  proof (cases "map_of spec f")
    case None
    then have "f \<notin> set (map fst spec)" by (simp add: map_of_eq_None_iff)
    with None show ?thesis by (simp add: merge_stats_def merged_def)
  next
    case (Some src)
    then have "f \<in> set (map fst spec)" by (metis map_of_eq_None_iff option.distinct(1) set_map)
    with Some show ?thesis
      by (cases "stats f") (simp_all add: merge_stats_def merged_def map_of_partial aggregate_num)
  qed
qed

lemma numeric_partial:
  "numeric_row (map fst spec) (map_of (map (\<lambda>(name, src). (name, aggregate rows src)) spec))"
proof -
  have "\<exists>src. map_of spec f = Some src" if "f \<in> fst ` set spec" for f
    using that by (metis map_of_eq_None_iff not_Some_eq)
  then show ?thesis
    by (auto simp: numeric_row_def map_of_partial aggregate_num)
qed

lemma map_of_keyed:
  "map_of (map (\<lambda>k. (k, f k)) ks) k = (if k \<in> set ks then Some (f k) else None)"
  by (induction ks) auto

lemma groupby_agg_columns: "columns (groupby_agg chunk by spec) = map fst spec"
  by (simp add: groupby_agg_def Let_def)

lemma groupby_agg_groups:
  "zip (index (groupby_agg chunk by spec)) (records (groupby_agg chunk by spec)) =
    map (\<lambda>k. (k, map_of (map (\<lambda>(name, src).
                   (name, aggregate (group_rows by (records chunk) k) src)) spec)))
      (remdups (map (group_key by) (key_rows by (records chunk))))"
  by (simp add: groupby_agg_def Let_def zip_map2 zip_same_conv_map key_rows_def group_rows_def)

lemma groupby_agg_empty:
  "spec \<noteq> [] \<Longrightarrow>
   empty_df (groupby_agg chunk by spec) \<longleftrightarrow> key_rows by (records chunk) = []"
  by (simp add: groupby_agg_def Let_def empty_df_def key_rows_def)

lemma update_table_groupby:
  assumes "distinct (map fst spec)" "''flights'' \<in> fst ` set spec"
    and "fst ` set spec \<subseteq> dom new_stats"
    and "\<forall>k s. map_of t k = Some s \<longrightarrow> fst ` set spec \<subseteq> dom s"
  shows "\<exists>t'. update_table t (groupby_agg chunk by spec) = Inr t' \<and>
     (\<forall>k. map_of t' k =
        (if k \<in> group_key by ` set (key_rows by (records chunk))
         then Some (merged spec (group_rows by (records chunk) k) (table_get t k))
         else map_of t k))"
proof (cases "key_rows by (records chunk) = []")
  case True
  from assms(2) have "spec \<noteq> []" by auto
  with True show ?thesis
    by (simp add: update_table_def groupby_agg_empty)
next
  case False
  from assms(2) have ne: "spec \<noteq> []" by auto
  let ?groups = "map (\<lambda>k. (k, map_of (map (\<lambda>(name, src).
                   (name, aggregate (group_rows by (records chunk) k) src)) spec)))
      (remdups (map (group_key by) (key_rows by (records chunk))))"
  have u: "update_table t (groupby_agg chunk by spec) = update_rows (map fst spec) ?groups t"
    using False ne by (simp add: update_table_def groupby_agg_empty groupby_agg_columns
        groupby_agg_groups)
  have d: "distinct (map fst ?groups)" by (simp add: comp_def)
  have n: "\<forall>row \<in> snd ` set ?groups. numeric_row (map fst spec) row"
    by (auto simp: numeric_partial)
  from assms have c: "distinct (map fst spec)" "''flights'' \<in> set (map fst spec)"
    "set (map fst spec) \<subseteq> dom new_stats"
    "\<forall>k s. map_of t k = Some s \<longrightarrow> set (map fst spec) \<subseteq> dom s"
    by simp_all
  from update_rows_merge[OF c(1,2,3) d n c(4)] obtain t' where
    t': "update_rows (map fst spec) ?groups t = Inr t'"
    and m: "\<forall>k. map_of t' k =
          (case map_of ?groups k of
             Some row \<Rightarrow> Some (merge_stats (map fst spec) row (table_get t k))
           | None \<Rightarrow> map_of t k)"
    by blast
  have "\<forall>k. map_of t' k =
        (if k \<in> group_key by ` set (key_rows by (records chunk))
         then Some (merged spec (group_rows by (records chunk) k) (table_get t k))
         else map_of t k)"
    by (simp add: m map_of_keyed merge_partial)
  with u t' show ?thesis by simp
qed

subsection \<open>The aggregation spec and the sum of two partial aggregates\<close>

lemma cause_step_simp:
  "cause_step S (c, f) al = (if c \<in> S then AList.update f (c, Sum) al else al)"
  by (simp add: cause_step_def)

lemma set_update_subset: "set (AList.update k v al) \<subseteq> insert (k, v) (set al)"
proof (induction al)
  case Nil
  show ?case by simp
next
  case (Cons p al)
  then show ?case by (cases p) auto
qed

lemma set_cause_step:
  "set (cause_step S (c, f) al) \<subseteq> (if c \<in> S then insert (f, (c, Sum)) (set al) else set al)"
  using set_update_subset[of f "(c, Sum)" al] by (simp add: cause_step_simp)

lemma set_fold_cause:
  "set (fold (cause_step S) causes al)
     \<subseteq> set al \<union> {(f, (c, Sum)) |c f. (c, f) \<in> set causes \<and> c \<in> S}"
proof (induction causes arbitrary: al)
  case Nil
  show ?case by simp
next
  case (Cons a causes)
  obtain c f where a: "a = (c, f)" by (cases a)
  have "fold (cause_step S) (a # causes) al = fold (cause_step S) causes (cause_step S (c, f) al)"
    by (simp add: a)
  moreover note Cons.IH[of "cause_step S (c, f) al"] set_cause_step[of S c f al]
  ultimately show ?case unfolding a by (auto split: if_splits)
qed

lemma fst_cause_step: "fst ` set al \<subseteq> fst ` set (cause_step S (c, f) al)"
  by (simp add: cause_step_simp dom_update subset_insertI)

lemma distinct_cause_step:
  "distinct (map fst al) \<Longrightarrow> distinct (map fst (cause_step S (c, f) al))"
  by (simp add: cause_step_simp distinct_update)

lemma fst_fold_cause: "fst ` set al \<subseteq> fst ` set (fold (cause_step S) causes al)"
proof (induction causes arbitrary: al)
  case Nil
  show ?case by simp
next
  case (Cons a causes)
  obtain c f where a: "a = (c, f)" by (cases a)
  have "fst ` set al \<subseteq> fst ` set (cause_step S (c, f) al)" by (rule fst_cause_step)
  also have "\<dots> \<subseteq> fst ` set (fold (cause_step S) causes (cause_step S (c, f) al))"
    by (rule Cons.IH)
  finally show ?case by (simp add: a)
qed

lemma distinct_fold_cause:
  "distinct (map fst al) \<Longrightarrow> distinct (map fst (fold (cause_step S) causes al))"
proof (induction causes arbitrary: al)
  case Nil
  then show ?case by simp
next
  case (Cons a causes)
  obtain c f where a: "a = (c, f)" by (cases a)
  have "distinct (map fst (fold (cause_step S) causes (cause_step S (c, f) al)))"
    by (rule Cons.IH) (rule distinct_cause_step[OF Cons.prems])
  then show ?case by (simp add: a)
qed

lemma build_agg_spec_eq:
  "build_agg_spec chunk =
    fold (cause_step (set (columns chunk))) DELAY_CAUSE_COLUMNS (base_spec chunk)"
  by (simp add: build_agg_spec_def base_spec_def Let_def cause_step_def)

lemma base_spec_distinct: "distinct (map fst (base_spec chunk))"
  by (simp add: base_spec_def Let_def distinct_update del: update.simps)

lemma base_spec_fst:
  "''flights'' \<in> fst ` set (base_spec chunk)"
  "fst ` set (base_spec chunk) \<subseteq> set BASE_METRIC_FIELDS"
  by (simp_all add: base_spec_def Let_def dom_update BASE_METRIC_FIELDS_def del: update.simps)

lemma fst_cause_entries:
  "fst ` {(f, (c, Sum)) |c f. (c, f) \<in> set causes \<and> c \<in> S} \<subseteq> snd ` set causes"
proof
  fix x
  assume "x \<in> fst ` {(f, (c, Sum)) |c f. (c, f) \<in> set causes \<and> c \<in> S}"
  then obtain c f where "x = f" "(c, f) \<in> set causes" by auto
  then show "x \<in> snd ` set causes" by (metis image_eqI snd_conv)
qed

lemma spec_fields:
  "distinct (map fst (build_agg_spec chunk))"
  "''flights'' \<in> fst ` set (build_agg_spec chunk)"
  "fst ` set (build_agg_spec chunk) \<subseteq> set METRIC_FIELDS"
proof -
  show "distinct (map fst (build_agg_spec chunk))"
    unfolding build_agg_spec_eq by (rule distinct_fold_cause) (rule base_spec_distinct)
  show "''flights'' \<in> fst ` set (build_agg_spec chunk)"
    unfolding build_agg_spec_eq by (rule subsetD[OF fst_fold_cause base_spec_fst(1)])
  have "fst ` set (build_agg_spec chunk)
      \<subseteq> fst ` (set (base_spec chunk) \<union>
          {(f, (c, Sum)) |c f. (c, f) \<in> set DELAY_CAUSE_COLUMNS \<and> c \<in> set (columns chunk)})"
    unfolding build_agg_spec_eq by (rule image_mono) (rule set_fold_cause)
  also have "\<dots> \<subseteq> fst ` set (base_spec chunk) \<union> snd ` set DELAY_CAUSE_COLUMNS"
    unfolding image_Un using fst_cause_entries[of DELAY_CAUSE_COLUMNS "set (columns chunk)"]
    by (rule Un_mono[OF subset_refl])
  also have "\<dots> \<subseteq> set BASE_METRIC_FIELDS \<union> snd ` set DELAY_CAUSE_COLUMNS"
    by (rule Un_mono[OF base_spec_fst(2) subset_refl])
  also have "\<dots> = set METRIC_FIELDS"
    by (simp add: METRIC_FIELDS_def)
  finally show "fst ` set (build_agg_spec chunk) \<subseteq> set METRIC_FIELDS" .
qed

lemma fold_upd_apply:
  "fold (\<lambda>f s. s(f \<mapsto> g f)) fs m x = (if x \<in> set fs then Some (g x) else m x)"
  by (induction fs arbitrary: m) auto

lemma new_stats_apply:
  "new_stats f =
    (if f \<in> set METRIC_FIELDS
     then Some (if f \<in> SUM_FIELDS then PyFloat (Some 0) else PyInt 0) else None)"
  by (simp add: new_stats_def fold_upd_apply)

lemma dom_new_stats: "dom new_stats = set METRIC_FIELDS"
  by (auto simp: new_stats_apply dom_def)

lemma set_cond_update:
  "set al \<subseteq> A \<Longrightarrow> set (if c then AList.update k v al else al) \<subseteq> (if c then insert (k, v) A else A)"
  using set_update_subset[of k v al] by (cases c) auto

lemma set_update_mono: "set al \<subseteq> A \<Longrightarrow> set (AList.update k v al) \<subseteq> insert (k, v) A"
  using set_update_subset[of k v al] by auto

lemma base_spec_set: "set (base_spec chunk) \<subseteq> count_entries chunk"
proof -
  let ?s0 = "[(''flights'', (''FL_DATE'', Size))]"
  let ?s1 = "if ''ARR_DELAY'' \<in> set (columns chunk)
            then AList.update ''arr_delay_over_15'' (''arr_delay_over_15'', Sum)
                   (AList.update ''arr_delay_count'' (''ARR_DELAY'', Count)
                     (AList.update ''arr_delay_sum'' (''ARR_DELAY'', Sum) ?s0))
            else ?s0"
  let ?s2 = "if ''DEP_DELAY'' \<in> set (columns chunk)
            then AList.update ''dep_delay_over_15'' (''dep_delay_over_15'', Sum)
                   (AList.update ''dep_delay_count'' (''DEP_DELAY'', Count)
                     (AList.update ''dep_delay_sum'' (''DEP_DELAY'', Sum) ?s1))
            else ?s1"
  let ?s3 = "if ''CANCELLED'' \<in> set (columns chunk)
            then AList.update ''cancelled'' (''CANCELLED'', Sum) ?s2 else ?s2"
  let ?s4 = "if ''DIVERTED'' \<in> set (columns chunk)
            then AList.update ''diverted'' (''DIVERTED'', Sum) ?s3 else ?s3"
  have 0: "set ?s0 \<subseteq> count_entries chunk" by (simp add: count_entries_def)
  have 1: "set ?s1 \<subseteq> count_entries chunk"
  proof (cases "''ARR_DELAY'' \<in> set (columns chunk)")
    case True
    have "set (AList.update ''arr_delay_over_15'' (''arr_delay_over_15'', Sum)
                   (AList.update ''arr_delay_count'' (''ARR_DELAY'', Count)
                     (AList.update ''arr_delay_sum'' (''ARR_DELAY'', Sum) ?s0)))
        \<subseteq> insert (''arr_delay_over_15'', (''arr_delay_over_15'', Sum))
            (insert (''arr_delay_count'', (''ARR_DELAY'', Count))
              (insert (''arr_delay_sum'', (''ARR_DELAY'', Sum)) (count_entries chunk)))"
      by (intro set_update_mono 0)
    also have "\<dots> \<subseteq> count_entries chunk" using True by (simp add: count_entries_def)
    finally show ?thesis using True by (simp del: update.simps)
  next
    case False
    with 0 show ?thesis by (simp del: update.simps)
  qed
  have 2: "set ?s2 \<subseteq> count_entries chunk"
  proof (cases "''DEP_DELAY'' \<in> set (columns chunk)")
    case True
    have "set (AList.update ''dep_delay_over_15'' (''dep_delay_over_15'', Sum)
                   (AList.update ''dep_delay_count'' (''DEP_DELAY'', Count)
                     (AList.update ''dep_delay_sum'' (''DEP_DELAY'', Sum) ?s1)))
        \<subseteq> insert (''dep_delay_over_15'', (''dep_delay_over_15'', Sum))
            (insert (''dep_delay_count'', (''DEP_DELAY'', Count))
              (insert (''dep_delay_sum'', (''DEP_DELAY'', Sum)) (count_entries chunk)))"
      by (intro set_update_mono 1)
    also have "\<dots> \<subseteq> count_entries chunk" using True by (simp add: count_entries_def)
    finally show ?thesis using True by (simp only: if_True)
  next
    case False
    with 1 show ?thesis by (simp only: if_False)
  qed
  have 3: "set ?s3 \<subseteq> count_entries chunk"
  proof (cases "''CANCELLED'' \<in> set (columns chunk)")
    case True
    have "set (AList.update ''cancelled'' (''CANCELLED'', Sum) ?s2)
        \<subseteq> insert (''cancelled'', (''CANCELLED'', Sum)) (count_entries chunk)"
      by (intro set_update_mono 2)
    also have "\<dots> \<subseteq> count_entries chunk" using True by (simp add: count_entries_def)
    finally show ?thesis using True by (simp only: if_True)
  next
    case False
    with 2 show ?thesis by (simp only: if_False)
  qed
  have 4: "set ?s4 \<subseteq> count_entries chunk"
  proof (cases "''DIVERTED'' \<in> set (columns chunk)")
    case True
    have "set (AList.update ''diverted'' (''DIVERTED'', Sum) ?s3)
        \<subseteq> insert (''diverted'', (''DIVERTED'', Sum)) (count_entries chunk)"
      by (intro set_update_mono 3)
    also have "\<dots> \<subseteq> count_entries chunk" using True by (simp add: count_entries_def)
    finally show ?thesis using True by (simp only: if_True)
  next
    case False
    with 3 show ?thesis by (simp only: if_False)
  qed
  have "base_spec chunk = ?s4" by (simp only: base_spec_def Let_def)
  with 4 show ?thesis by (simp only:)
qed

lemma cause_fields_sum: "snd ` set DELAY_CAUSE_COLUMNS \<subseteq> SUM_FIELDS"
  by (simp add: SUM_FIELDS_def METRIC_FIELDS_def COUNT_FIELDS_def DELAY_CAUSE_COLUMNS_def)

lemma count_entry:
  assumes "(f, src) \<in> set (build_agg_spec chunk)" and "f \<notin> SUM_FIELDS"
  shows "(f, src) \<in> count_entries chunk"
proof -
  from assms(1) set_fold_cause[of "set (columns chunk)" DELAY_CAUSE_COLUMNS "base_spec chunk"]
  have "(f, src) \<in> set (base_spec chunk) \<union>
      {(f, (c, Sum)) |c f. (c, f) \<in> set DELAY_CAUSE_COLUMNS \<and> c \<in> set (columns chunk)}"
    unfolding build_agg_spec_eq by (rule subsetD[rotated])
  then show ?thesis
  proof
    assume "(f, src) \<in> set (base_spec chunk)"
    with base_spec_set show ?thesis by (rule subsetD)
  next
    assume "(f, src) \<in> {(f, (c, Sum)) |c f. (c, f) \<in> set DELAY_CAUSE_COLUMNS \<and> c \<in> set (columns chunk)}"
    then obtain c where "(c, f) \<in> set DELAY_CAUSE_COLUMNS" by auto
    then have "f \<in> snd ` set DELAY_CAUSE_COLUMNS" by (metis image_eqI snd_conv)
    with cause_fields_sum assms(2) show ?thesis by blast
  qed
qed

lemma dom_merged [simp]: "dom (merged spec rows stats) = dom stats"
  by (auto simp: merged_def dom_def split: option.splits)

lemma agg_num_append: "agg_num (A @ B) src = agg_num A src + agg_num B src"
  by (cases "(A, src)" rule: agg_num.cases) (simp_all add: series_sum_def series_count_def)

lemma py_trunc_of_int [simp]: "py_trunc (of_int n) = n"
  by (simp add: py_trunc_def)

lemma add_partial_add:
  assumes "f \<in> SUM_FIELDS \<or> (x \<in> \<int> \<and> y \<in> \<int>)"
  shows "add_partial f (x + y) v = add_partial f y (add_partial f x v)"
proof (cases "f \<in> SUM_FIELDS")
  case True
  then show ?thesis
    by (cases v) (auto simp: add_partial_def add.assoc split: option.splits)
next
  case False
  with assms obtain a b where "x = of_int a" "y = of_int b" by (auto elim!: Ints_cases)
  with False show ?thesis
  proof (cases v)
    case (PyInt n)
    with False \<open>x = of_int a\<close> \<open>y = of_int b\<close> show ?thesis
      by (simp add: add_partial_def flip: of_int_add)
  next
    case (PyFloat z)
    with False \<open>x = of_int a\<close> \<open>y = of_int b\<close> show ?thesis
      by (cases z) (simp_all add: add_partial_def flip: of_int_add)
  qed
qed

lemma merged_append:
  assumes "\<forall>(f, src) \<in> set spec. f \<notin> SUM_FIELDS \<longrightarrow> agg_num A src \<in> \<int> \<and> agg_num B src \<in> \<int>"
  shows "merged spec (A @ B) stats = merged spec B (merged spec A stats)"
proof
  fix f
  show "merged spec (A @ B) stats f = merged spec B (merged spec A stats) f"
  proof (cases "map_of spec f")
    case None
    then show ?thesis by (simp add: merged_def)
  next
    case (Some src)
    then have "(f, src) \<in> set spec" by (rule map_of_SomeD)
    with assms have "f \<in> SUM_FIELDS \<or> (agg_num A src \<in> \<int> \<and> agg_num B src \<in> \<int>)"
      by auto
    from add_partial_add[OF this] Some show ?thesis
      by (cases "stats f") (simp_all add: merged_def agg_num_append)
  qed
qed

lemma merged_commute:
  assumes "\<forall>(f, src) \<in> set spec. f \<notin> SUM_FIELDS \<longrightarrow> agg_num A src \<in> \<int> \<and> agg_num B src \<in> \<int>"
  shows "merged spec A (merged spec B stats) = merged spec B (merged spec A stats)"
proof -
  have "agg_num (B @ A) src = agg_num (A @ B) src" for src
    by (simp add: agg_num_append add.commute)
  then have "merged spec (B @ A) stats = merged spec (A @ B) stats"
    by (simp add: merged_def cong: option.case_cong)
  moreover have "merged spec (B @ A) stats = merged spec A (merged spec B stats)"
    using assms by (intro merged_append) auto
  ultimately show ?thesis using merged_append[OF assms] by simp
qed

subsection \<open>The over-15 counts of the Metric Records\<close>

lemma columns_normalized:
  assumes "preprocess_chunk overflow chunk = Inr N"
  shows "set (columns N) =
    set (columns chunk) \<union> {''FL_DATE'', ''month''} \<union>
    (if ''ARR_DELAY'' \<in> set (columns chunk) then {''arr_delay_over_15''} else {}) \<union>
    (if ''DEP_DELAY'' \<in> set (columns chunk) then {''dep_delay_over_15''} else {})"
proof -
  from assms have N: "N = fold cause_column (map fst DELAY_CAUSE_COLUMNS)
            (flag_column overflow ''DIVERTED'' (flag_column overflow ''CANCELLED''
              (delay_columns ''DEP_DELAY'' ''dep_delay_over_15''
                (delay_columns ''ARR_DELAY'' ''arr_delay_over_15'' (dated chunk)))))"
    by (auto simp: preprocess_chunk_eq split: if_splits)
  show ?thesis
    unfolding N
    by (simp add: columns_fold_cause columns_flag_column columns_delay_columns columns_dated
        insert_commute)
qed

lemma series_sum_over_15:
  "series_sum (map (\<lambda>r. over_cell (cell_at r c)) rows) = of_nat (length (filter (over_15 c) rows))"
  by (induction rows) (auto simp: series_sum_def over_cell_def of_int64_def over_15_def split: cell.splits)

lemma py_trunc_of_nat: "py_trunc (of_nat n) = int n"
  by (simp add: py_trunc_def)

lemma over_not_sum: "''arr_delay_over_15'' \<notin> SUM_FIELDS" "''dep_delay_over_15'' \<notin> SUM_FIELDS"
  by (simp_all add: SUM_FIELDS_def COUNT_FIELDS_def)

lemma map_of_fold_cause:
  "f \<notin> snd ` set causes \<Longrightarrow> map_of (fold (cause_step S) causes al) f = map_of al f"
proof (induction causes arbitrary: al)
  case Nil
  show ?case by simp
next
  case (Cons a causes)
  obtain c g where a: "a = (c, g)" by (cases a)
  from Cons.prems a have ne: "f \<noteq> g" and rest: "f \<notin> snd ` set causes" by auto
  have "map_of (fold (cause_step S) (a # causes) al) f
      = map_of (fold (cause_step S) causes (cause_step S (c, g) al)) f"
    by (simp add: a)
  also have "\<dots> = map_of (cause_step S (c, g) al) f" by (rule Cons.IH[OF rest])
  also have "\<dots> = map_of al f" using ne by (simp add: cause_step_simp update_conv')
  finally show ?case .
qed

lemma over_spec:
  "''ARR_DELAY'' \<in> set (columns N) \<Longrightarrow>
     map_of (build_agg_spec N) ''arr_delay_over_15'' = Some (''arr_delay_over_15'', Sum)"
  "''DEP_DELAY'' \<in> set (columns N) \<Longrightarrow>
     map_of (build_agg_spec N) ''dep_delay_over_15'' = Some (''dep_delay_over_15'', Sum)"
proof -
  have n: "''arr_delay_over_15'' \<notin> snd ` set DELAY_CAUSE_COLUMNS"
    "''dep_delay_over_15'' \<notin> snd ` set DELAY_CAUSE_COLUMNS"
    by (simp_all add: DELAY_CAUSE_COLUMNS_def)
  show "''ARR_DELAY'' \<in> set (columns N) \<Longrightarrow>
     map_of (build_agg_spec N) ''arr_delay_over_15'' = Some (''arr_delay_over_15'', Sum)"
    unfolding build_agg_spec_eq map_of_fold_cause[OF n(1)]
    by (simp add: base_spec_def Let_def update_conv' del: update.simps)
  show "''DEP_DELAY'' \<in> set (columns N) \<Longrightarrow>
     map_of (build_agg_spec N) ''dep_delay_over_15'' = Some (''dep_delay_over_15'', Sum)"
    unfolding build_agg_spec_eq map_of_fold_cause[OF n(2)]
    by (simp add: base_spec_def Let_def update_conv' del: update.simps)
qed

lemma group_rows_subset: "set (group_rows by rows k) \<subseteq> set rows"
  by (auto simp: group_rows_def key_rows_def)

lemma agg_over:
  assumes "\<forall>r \<in> set (records N). cell_at r over = over_cell (cell_at r c)"
    and "set rows \<subseteq> set (records N)"
  shows "agg_num rows (over, Sum) = of_nat (length (filter (over_15 c) rows))"
proof -
  from assms have m: "map (\<lambda>r. cell_at r over) rows = map (\<lambda>r. over_cell (cell_at r c)) rows"
    by auto
  have "agg_num rows (over, Sum) = series_sum (map (\<lambda>r. cell_at r over) rows)"
    by simp
  also have "\<dots> = series_sum (map (\<lambda>r. over_cell (cell_at r c)) rows)"
    by (simp only: m)
  finally show ?thesis by (simp only: series_sum_over_15)
qed

lemma merged_over:
  assumes "map_of spec over = Some (over, Sum)" and "over \<notin> SUM_FIELDS"
    and "\<forall>r \<in> set (records N). cell_at r over = over_cell (cell_at r c)"
    and "set rows \<subseteq> set (records N)"
    and "stats over = Some (PyInt n)"
  shows "merged spec rows stats over = Some (PyInt (n + int (length (filter (over_15 c) rows))))"
  using assms(1,2,5) agg_over[OF assms(3,4)]
  by (simp add: merged_def add_partial_def py_trunc_of_nat)

lemma iadd_dom:
  assumes "f \<in> dom overall"
  shows "\<exists>o'. iadd overall f x = Inr o' \<and> dom o' = dom overall \<and>
           (\<forall>g. g \<noteq> f \<longrightarrow> o' g = overall g) \<and>
           o' f = map_option (\<lambda>v. py_add v x) (overall f)"
  using assms by (auto simp: iadd_def)

lemma overall_delay_effect:
  assumes "{sum_field, count_field, over} \<subseteq> dom overall"
    and "over \<noteq> sum_field" "over \<noteq> count_field"
  shows "\<exists>o'. overall_delay c sum_field count_field over chunk overall = Inr o' \<and>
           dom o' = dom overall \<and>
           (\<forall>g. g \<notin> {sum_field, count_field, over} \<longrightarrow> o' g = overall g) \<and>
           o' over =
             (if c \<in> set (columns chunk) \<and> over \<in> set (columns chunk)
              then map_option (\<lambda>v. py_add v (PyInt (py_trunc (series_sum (col chunk over)))))
                     (overall over)
              else overall over)"
proof (cases "c \<in> set (columns chunk)")
  case False
  then show ?thesis by (simp add: overall_delay_def)
next
  case True
  from assms(1) have "sum_field \<in> dom overall" by simp
  from iadd_dom[OF this, of "PyFloat (Some (series_sum (col chunk c)))"]
  obtain o1 where o1: "iadd overall sum_field (PyFloat (Some (series_sum (col chunk c)))) = Inr o1"
    "dom o1 = dom overall" "\<forall>g. g \<noteq> sum_field \<longrightarrow> o1 g = overall g"
    by blast
  from assms(1) o1(2) have "count_field \<in> dom o1" by simp
  from iadd_dom[OF this, of "PyInt (int (series_count (col chunk c)))"]
  obtain o2 where o2: "iadd o1 count_field (PyInt (int (series_count (col chunk c)))) = Inr o2"
    "dom o2 = dom o1" "\<forall>g. g \<noteq> count_field \<longrightarrow> o2 g = o1 g"
    by blast
  have same: "o2 over = overall over"
    using o1(3) o2(3) assms(2,3) by simp
  have other: "\<forall>g. g \<notin> {sum_field, count_field, over} \<longrightarrow> o2 g = overall g"
    using o1(3) o2(3) by simp
  show ?thesis
  proof (cases "over \<in> set (columns chunk)")
    case False
    with True o1 o2 same other show ?thesis
      by (simp add: overall_delay_def)
  next
    case over: True
    from assms(1) o1(2) o2(2) have "over \<in> dom o2" by simp
    from iadd_dom[OF this, of "PyInt (py_trunc (series_sum (col chunk over)))"]
    obtain o3 where o3: "iadd o2 over (PyInt (py_trunc (series_sum (col chunk over)))) = Inr o3"
      "dom o3 = dom o2" "\<forall>g. g \<noteq> over \<longrightarrow> o3 g = o2 g"
      "o3 over = map_option (\<lambda>v. py_add v (PyInt (py_trunc (series_sum (col chunk over)))))
                   (o2 over)"
      by blast
    have "overall_delay c sum_field count_field over chunk overall = Inr o3"
      using True over o1(1) o2(1) o3(1) by (simp add: overall_delay_def)
    moreover have "dom o3 = dom overall" using o1(2) o2(2) o3(2) by simp
    moreover have "\<forall>g. g \<notin> {sum_field, count_field, over} \<longrightarrow> o3 g = overall g"
      using other o3(3) by simp
    moreover have "o3 over =
        map_option (\<lambda>v. py_add v (PyInt (py_trunc (series_sum (col chunk over))))) (overall over)"
      using o3(4) same by simp
    ultimately show ?thesis using True over by simp
  qed
qed

lemma overall_flag_effect:
  assumes "field \<in> dom overall"
  shows "\<exists>o'. overall_flag c field chunk overall = Inr o' \<and> dom o' = dom overall \<and>
           (\<forall>g. g \<noteq> field \<longrightarrow> o' g = overall g)"
proof (cases "c \<in> set (columns chunk)")
  case False
  then show ?thesis by (simp add: overall_flag_def)
next
  case True
  from iadd_dom[OF assms, of "PyInt (py_trunc (series_sum (col chunk c)))"] True
  show ?thesis by (auto simp: overall_flag_def)
qed

lemma overall_causes_effect:
  "snd ` set causes \<subseteq> dom overall \<Longrightarrow>
   \<exists>o'. overall_causes causes chunk overall = Inr o' \<and> dom o' = dom overall \<and>
     (\<forall>g. g \<notin> snd ` set causes \<longrightarrow> o' g = overall g)"
proof (induction causes arbitrary: overall)
  case Nil
  show ?case by simp
next
  case (Cons a causes)
  obtain c f where a: "a = (c, f)" by (cases a)
  from Cons.prems a have f: "f \<in> dom overall" and rest: "snd ` set causes \<subseteq> dom overall"
    by auto
  show ?case
  proof (cases "c \<in> set (columns chunk)")
    case False
    from Cons.IH[OF rest] obtain o' where
      "overall_causes causes chunk overall = Inr o'" "dom o' = dom overall"
      "\<forall>g. g \<notin> snd ` set causes \<longrightarrow> o' g = overall g"
      by blast
    with False show ?thesis by (simp add: a)
  next
    case True
    from iadd_dom[OF f, of "PyFloat (Some (series_sum (col chunk c)))"]
    obtain o1 where o1: "iadd overall f (PyFloat (Some (series_sum (col chunk c)))) = Inr o1"
      "dom o1 = dom overall" "\<forall>g. g \<noteq> f \<longrightarrow> o1 g = overall g"
      by blast
    from rest o1(2) have "snd ` set causes \<subseteq> dom o1" by simp
    from Cons.IH[OF this] obtain o' where o': "overall_causes causes chunk o1 = Inr o'"
      "dom o' = dom o1" "\<forall>g. g \<notin> snd ` set causes \<longrightarrow> o' g = o1 g"
      by blast
    have "overall_causes (a # causes) chunk overall = Inr o'"
      using True o1(1) o'(1) by (simp add: a)
    moreover have "dom o' = dom overall" using o'(2) o1(2) by simp
    moreover have "\<forall>g. g \<notin> snd ` set (a # causes) \<longrightarrow> o' g = overall g"
      using o'(3) o1(3) by (simp add: a)
    ultimately show ?thesis by blast
  qed
qed

lemma update_overall_over:
  assumes "dom overall = set METRIC_FIELDS"
  shows "\<exists>o'. update_overall overall chunk = Inr o' \<and> dom o' = dom overall \<and>
    o' ''arr_delay_over_15'' =
      (if ''ARR_DELAY'' \<in> set (columns chunk) \<and> ''arr_delay_over_15'' \<in> set (columns chunk)
       then map_option (\<lambda>v. py_add v (PyInt (py_trunc (series_sum (col chunk ''arr_delay_over_15'')))))
              (overall ''arr_delay_over_15'')
       else overall ''arr_delay_over_15'') \<and>
    o' ''dep_delay_over_15'' =
      (if ''DEP_DELAY'' \<in> set (columns chunk) \<and> ''dep_delay_over_15'' \<in> set (columns chunk)
       then map_option (\<lambda>v. py_add v (PyInt (py_trunc (series_sum (col chunk ''dep_delay_over_15'')))))
              (overall ''dep_delay_over_15'')
       else overall ''dep_delay_over_15'')"
proof -
  have fields: "''flights'' \<in> set METRIC_FIELDS"
    "{''arr_delay_sum'', ''arr_delay_count'', ''arr_delay_over_15''} \<subseteq> set METRIC_FIELDS"
    "{''dep_delay_sum'', ''dep_delay_count'', ''dep_delay_over_15''} \<subseteq> set METRIC_FIELDS"
    "''cancelled'' \<in> set METRIC_FIELDS" "''diverted'' \<in> set METRIC_FIELDS"
    by (simp_all add: METRIC_FIELDS_def BASE_METRIC_FIELDS_def)
  have causes: "snd ` set DELAY_CAUSE_COLUMNS \<subseteq> set METRIC_FIELDS"
    by (auto simp: METRIC_FIELDS_def)
  have nc: "''arr_delay_over_15'' \<notin> snd ` set DELAY_CAUSE_COLUMNS"
    "''dep_delay_over_15'' \<notin> snd ` set DELAY_CAUSE_COLUMNS"
    by (simp_all add: DELAY_CAUSE_COLUMNS_def)
  from fields(1) assms have "''flights'' \<in> dom overall" by simp
  from iadd_dom[OF this, of "PyInt (int (length (records chunk)))"]
  obtain o1 where o1: "iadd overall ''flights'' (PyInt (int (length (records chunk)))) = Inr o1"
    "dom o1 = dom overall" "\<forall>g. g \<noteq> ''flights'' \<longrightarrow> o1 g = overall g"
    by blast
  from fields(2) assms o1(2)
  have "{''arr_delay_sum'', ''arr_delay_count'', ''arr_delay_over_15''} \<subseteq> dom o1" by simp
  from overall_delay_effect[OF this, of "''ARR_DELAY''" chunk]
  obtain o2 where o2:
    "overall_delay ''ARR_DELAY'' ''arr_delay_sum'' ''arr_delay_count'' ''arr_delay_over_15'' chunk o1
       = Inr o2"
    "dom o2 = dom o1"
    "\<forall>g. g \<notin> {''arr_delay_sum'', ''arr_delay_count'', ''arr_delay_over_15''} \<longrightarrow> o2 g = o1 g"
    "o2 ''arr_delay_over_15'' =
      (if ''ARR_DELAY'' \<in> set (columns chunk) \<and> ''arr_delay_over_15'' \<in> set (columns chunk)
       then map_option (\<lambda>v. py_add v (PyInt (py_trunc (series_sum (col chunk ''arr_delay_over_15'')))))
              (o1 ''arr_delay_over_15'')
       else o1 ''arr_delay_over_15'')"
    by auto
  from fields(3) assms o1(2) o2(2)
  have "{''dep_delay_sum'', ''dep_delay_count'', ''dep_delay_over_15''} \<subseteq> dom o2" by simp
  from overall_delay_effect[OF this, of "''DEP_DELAY''" chunk]
  obtain o3 where o3:
    "overall_delay ''DEP_DELAY'' ''dep_delay_sum'' ''dep_delay_count'' ''dep_delay_over_15'' chunk o2
       = Inr o3"
    "dom o3 = dom o2"
    "\<forall>g. g \<notin> {''dep_delay_sum'', ''dep_delay_count'', ''dep_delay_over_15''} \<longrightarrow> o3 g = o2 g"
    "o3 ''dep_delay_over_15'' =
      (if ''DEP_DELAY'' \<in> set (columns chunk) \<and> ''dep_delay_over_15'' \<in> set (columns chunk)
       then map_option (\<lambda>v. py_add v (PyInt (py_trunc (series_sum (col chunk ''dep_delay_over_15'')))))
              (o2 ''dep_delay_over_15'')
       else o2 ''dep_delay_over_15'')"
    by auto
  from fields(4) assms o1(2) o2(2) o3(2) have "''cancelled'' \<in> dom o3" by simp
  from overall_flag_effect[OF this, of "''CANCELLED''" chunk]
  obtain o4 where o4: "overall_flag ''CANCELLED'' ''cancelled'' chunk o3 = Inr o4"
    "dom o4 = dom o3" "\<forall>g. g \<noteq> ''cancelled'' \<longrightarrow> o4 g = o3 g"
    by blast
  from fields(5) assms o1(2) o2(2) o3(2) o4(2) have "''diverted'' \<in> dom o4" by simp
  from overall_flag_effect[OF this, of "''DIVERTED''" chunk]
  obtain o5 where o5: "overall_flag ''DIVERTED'' ''diverted'' chunk o4 = Inr o5"
    "dom o5 = dom o4" "\<forall>g. g \<noteq> ''diverted'' \<longrightarrow> o5 g = o4 g"
    by blast
  from causes assms o1(2) o2(2) o3(2) o4(2) o5(2)
  have "snd ` set DELAY_CAUSE_COLUMNS \<subseteq> dom o5" by simp
  from overall_causes_effect[OF this, of chunk]
  obtain o6 where o6: "overall_causes DELAY_CAUSE_COLUMNS chunk o5 = Inr o6"
    "dom o6 = dom o5" "\<forall>g. g \<notin> snd ` set DELAY_CAUSE_COLUMNS \<longrightarrow> o6 g = o5 g"
    by blast
  have run: "update_overall overall chunk = Inr o6"
    using o1(1) o2(1) o3(1) o4(1) o5(1) o6(1) by (simp add: update_overall_def)
  have d: "dom o6 = dom overall"
    using o1(2) o2(2) o3(2) o4(2) o5(2) o6(2) by simp
  have "o6 ''arr_delay_over_15'' = o5 ''arr_delay_over_15''" using o6(3) nc(1) by blast
  also have "\<dots> = o4 ''arr_delay_over_15''" using o5(3) by simp
  also have "\<dots> = o3 ''arr_delay_over_15''" using o4(3) by simp
  also have "\<dots> = o2 ''arr_delay_over_15''" using o3(3) by simp
  finally have a: "o6 ''arr_delay_over_15'' = o2 ''arr_delay_over_15''" .
  have a1: "o1 ''arr_delay_over_15'' = overall ''arr_delay_over_15''" using o1(3) by simp
  have "o6 ''dep_delay_over_15'' = o5 ''dep_delay_over_15''" using o6(3) nc(2) by blast
  also have "\<dots> = o4 ''dep_delay_over_15''" using o5(3) by simp
  also have "\<dots> = o3 ''dep_delay_over_15''" using o4(3) by simp
  finally have b: "o6 ''dep_delay_over_15'' = o3 ''dep_delay_over_15''" .
  have "o2 ''dep_delay_over_15'' = o1 ''dep_delay_over_15''" using o2(3) by simp
  also have "\<dots> = overall ''dep_delay_over_15''" using o1(3) by simp
  finally have b1: "o2 ''dep_delay_over_15'' = overall ''dep_delay_over_15''" .
  show ?thesis
    using run d a b o2(4) o3(4) a1 b1 by simp
qed

lemma col_over_sum:
  assumes "col N over = map over_cell (col N c)"
  shows "series_sum (col N over) = of_nat (length (filter (over_15 c) (records N)))"
proof -
  have "series_sum (col N over) = series_sum (map (\<lambda>r. over_cell (cell_at r c)) (records N))"
    unfolding assms by (simp add: col_def comp_def)
  then show ?thesis by (simp only: series_sum_over_15)
qed

lemma over_15_counted:
  assumes N: "preprocess_chunk overflow chunk = Inr N"
    and c: "c \<in> set (columns chunk)"
    and cN: "c \<in> set (columns N)" "over \<in> set (columns N)"
    and eq: "col N over = map over_cell (col N c)"
    and spec: "map_of (build_agg_spec N) over = Some (over, Sum)"
    and ns: "over \<notin> SUM_FIELDS"
    and t: "complete table"
  shows "\<exists>table'. update_table table (groupby_agg N by (build_agg_spec N)) = Inr table' \<and>
           (\<forall>k \<in> group_key by ` set (key_rows by (records N)).
              \<exists>stats. map_of table' k = Some stats \<and>
                (\<forall>n. table_get table k over = Some (PyInt n) \<longrightarrow>
                   stats over =
                     Some (PyInt (n + int (length (filter (over_15 c) (group_rows by (records N) k)))))))"
proof -
  have s3: "fst ` set (build_agg_spec N) \<subseteq> dom new_stats"
    using spec_fields(3)[of N] by (simp add: dom_new_stats)
  have s4: "\<forall>k s. map_of table k = Some s \<longrightarrow> fst ` set (build_agg_spec N) \<subseteq> dom s"
    using t spec_fields(3)[of N] by (simp add: complete_def)
  from update_table_groupby[OF spec_fields(1,2) s3 s4, of N "by"]
  obtain t' where u: "update_table table (groupby_agg N by (build_agg_spec N)) = Inr t'"
    and m: "\<forall>k. map_of t' k =
        (if k \<in> group_key by ` set (key_rows by (records N))
         then Some (merged (build_agg_spec N) (group_rows by (records N) k) (table_get table k))
         else map_of table k)"
    by blast
  have rows: "\<forall>r \<in> set (records N). cell_at r over = over_cell (cell_at r c)"
    using col_rows[OF eq] by simp
  have "\<exists>stats. map_of t' k = Some stats \<and>
        (\<forall>n. table_get table k over = Some (PyInt n) \<longrightarrow>
           stats over = Some (PyInt (n + int (length (filter (over_15 c) (group_rows by (records N) k))))))"
    if k: "k \<in> group_key by ` set (key_rows by (records N))" for k
  proof -
    let ?s = "merged (build_agg_spec N) (group_rows by (records N) k) (table_get table k)"
    from m k have "map_of t' k = Some ?s" by simp
    moreover have "\<forall>n. table_get table k over = Some (PyInt n) \<longrightarrow>
        ?s over = Some (PyInt (n + int (length (filter (over_15 c) (group_rows by (records N) k)))))"
      using merged_over[OF spec ns rows group_rows_subset] by blast
    ultimately show ?thesis by blast
  qed
  with u show ?thesis by blast
qed

lemma over_15_overall:
  assumes "c \<in> set (columns N)" "over \<in> set (columns N)"
    and "col N over = map over_cell (col N c)"
    and "v = (if c \<in> set (columns N) \<and> over \<in> set (columns N)
       then map_option (\<lambda>v. py_add v (PyInt (py_trunc (series_sum (col N over))))) old
       else old)"
  shows "\<forall>n. old = Some (PyInt n) \<longrightarrow>
           v = Some (PyInt (n + int (length (filter (over_15 c) (records N)))))"
  using assms(1,2,4) by (simp add: col_over_sum[OF assms(3)] py_trunc_of_nat)

text \<open>
  C4. Threshold strictness: in a normalised chunk, a row with a known arrival delay has the
  over-15 indicator 1 if its delay is strictly greater than 15 and 0 otherwise. When the
  chunk is merged into a table, under any grouping key, the \<open>arr_delay_over_15\<close> field of
  the Metric Record of a group grows by the number of rows of the group whose delay is
  known and strictly greater than 15, and that field of the overall record grows by the
  number of such rows in the chunk. The same holds for the departure delay.
\<close>

theorem over_15_strict:
  assumes "preprocess_chunk overflow chunk = Inr normalized"
    and "r \<in> set (records normalized)"
    and "complete table" and "dom overall = set METRIC_FIELDS"
  shows "(''ARR_DELAY'' \<in> set (columns chunk) \<longrightarrow>
            (\<forall>x. cell_at r ''ARR_DELAY'' = Number x \<longrightarrow>
                 cell_at r ''arr_delay_over_15'' = Number (if 15 < x then 1 else 0) \<and>
                 (over_15 ''ARR_DELAY'' r \<longleftrightarrow> 15 < x)) \<and>
            (\<exists>table'. update_table table (groupby_agg normalized by (build_agg_spec normalized))
                        = Inr table' \<and>
               (\<forall>k \<in> group_key by ` set (key_rows by (records normalized)).
                  \<exists>stats. map_of table' k = Some stats \<and>
                    (\<forall>n. table_get table k ''arr_delay_over_15'' = Some (PyInt n) \<longrightarrow>
                       stats ''arr_delay_over_15'' =
                         Some (PyInt (n + int (length (filter (over_15 ''ARR_DELAY'')
                                                   (group_rows by (records normalized) k)))))))) \<and>
            (\<exists>overall'. update_overall overall normalized = Inr overall' \<and>
               (\<forall>n. overall ''arr_delay_over_15'' = Some (PyInt n) \<longrightarrow>
                  overall' ''arr_delay_over_15'' =
                    Some (PyInt (n + int (length (filter (over_15 ''ARR_DELAY'')
                                              (records normalized)))))))) \<and>
         (''DEP_DELAY'' \<in> set (columns chunk) \<longrightarrow>
            (\<forall>x. cell_at r ''DEP_DELAY'' = Number x \<longrightarrow>
                 cell_at r ''dep_delay_over_15'' = Number (if 15 < x then 1 else 0) \<and>
                 (over_15 ''DEP_DELAY'' r \<longleftrightarrow> 15 < x)) \<and>
            (\<exists>table'. update_table table (groupby_agg normalized by (build_agg_spec normalized))
                        = Inr table' \<and>
               (\<forall>k \<in> group_key by ` set (key_rows by (records normalized)).
                  \<exists>stats. map_of table' k = Some stats \<and>
                    (\<forall>n. table_get table k ''dep_delay_over_15'' = Some (PyInt n) \<longrightarrow>
                       stats ''dep_delay_over_15'' =
                         Some (PyInt (n + int (length (filter (over_15 ''DEP_DELAY'')
                                                   (group_rows by (records normalized) k)))))))) \<and>
            (\<exists>overall'. update_overall overall normalized = Inr overall' \<and>
               (\<forall>n. overall ''dep_delay_over_15'' = Some (PyInt n) \<longrightarrow>
                  overall' ''dep_delay_over_15'' =
                    Some (PyInt (n + int (length (filter (over_15 ''DEP_DELAY'')
                                              (records normalized))))))))"
proof -
  have one: "cell_at r over = over_cell (cell_at r c) \<Longrightarrow>
      \<forall>x. cell_at r c = Number x \<longrightarrow>
        cell_at r over = Number (if 15 < x then 1 else 0) \<and> (over_15 c r \<longleftrightarrow> 15 < x)"
    for over c
    by (simp add: over_cell_def of_int64_def over_15_def)
  note cols = columns_normalized[OF assms(1)]
  from update_overall_over[OF assms(4), of normalized]
  obtain o' where o': "update_overall overall normalized = Inr o'"
    and oa: "o' ''arr_delay_over_15'' =
      (if ''ARR_DELAY'' \<in> set (columns normalized) \<and> ''arr_delay_over_15'' \<in> set (columns normalized)
       then map_option (\<lambda>v. py_add v (PyInt (py_trunc (series_sum (col normalized ''arr_delay_over_15'')))))
              (overall ''arr_delay_over_15'')
       else overall ''arr_delay_over_15'')"
    and ob: "o' ''dep_delay_over_15'' =
      (if ''DEP_DELAY'' \<in> set (columns normalized) \<and> ''dep_delay_over_15'' \<in> set (columns normalized)
       then map_option (\<lambda>v. py_add v (PyInt (py_trunc (series_sum (col normalized ''dep_delay_over_15'')))))
              (overall ''dep_delay_over_15'')
       else overall ''dep_delay_over_15'')"
    by blast
  show ?thesis
  proof (intro conjI impI)
    assume c: "''ARR_DELAY'' \<in> set (columns chunk)"
    note eq = normalized_delay(2)[OF assms(1) c]
    from c cols have cN: "''ARR_DELAY'' \<in> set (columns normalized)"
      "''arr_delay_over_15'' \<in> set (columns normalized)"
      by simp_all
    show "\<forall>x. cell_at r ''ARR_DELAY'' = Number x \<longrightarrow>
                 cell_at r ''arr_delay_over_15'' = Number (if 15 < x then 1 else 0) \<and>
                 (over_15 ''ARR_DELAY'' r \<longleftrightarrow> 15 < x)"
      by (rule one) (rule col_rows[OF eq assms(2)])
    show "\<exists>table'. update_table table (groupby_agg normalized by (build_agg_spec normalized))
                        = Inr table' \<and>
               (\<forall>k \<in> group_key by ` set (key_rows by (records normalized)).
                  \<exists>stats. map_of table' k = Some stats \<and>
                    (\<forall>n. table_get table k ''arr_delay_over_15'' = Some (PyInt n) \<longrightarrow>
                       stats ''arr_delay_over_15'' =
                         Some (PyInt (n + int (length (filter (over_15 ''ARR_DELAY'')
                                                   (group_rows by (records normalized) k)))))))"
      by (rule over_15_counted[OF assms(1) c cN eq over_spec(1)[OF cN(1)] over_not_sum(1) assms(3)])
    from over_15_overall[OF cN eq oa] o'
    show "\<exists>overall'. update_overall overall normalized = Inr overall' \<and>
               (\<forall>n. overall ''arr_delay_over_15'' = Some (PyInt n) \<longrightarrow>
                  overall' ''arr_delay_over_15'' =
                    Some (PyInt (n + int (length (filter (over_15 ''ARR_DELAY'')
                                              (records normalized))))))"
      by blast
  next
    assume c: "''DEP_DELAY'' \<in> set (columns chunk)"
    note eq = normalized_delay(4)[OF assms(1) c]
    from c cols have cN: "''DEP_DELAY'' \<in> set (columns normalized)"
      "''dep_delay_over_15'' \<in> set (columns normalized)"
      by simp_all
    show "\<forall>x. cell_at r ''DEP_DELAY'' = Number x \<longrightarrow>
                 cell_at r ''dep_delay_over_15'' = Number (if 15 < x then 1 else 0) \<and>
                 (over_15 ''DEP_DELAY'' r \<longleftrightarrow> 15 < x)"
      by (rule one) (rule col_rows[OF eq assms(2)])
    show "\<exists>table'. update_table table (groupby_agg normalized by (build_agg_spec normalized))
                        = Inr table' \<and>
               (\<forall>k \<in> group_key by ` set (key_rows by (records normalized)).
                  \<exists>stats. map_of table' k = Some stats \<and>
                    (\<forall>n. table_get table k ''dep_delay_over_15'' = Some (PyInt n) \<longrightarrow>
                       stats ''dep_delay_over_15'' =
                         Some (PyInt (n + int (length (filter (over_15 ''DEP_DELAY'')
                                                   (group_rows by (records normalized) k)))))))"
      by (rule over_15_counted[OF assms(1) c cN eq over_spec(2)[OF cN(1)] over_not_sum(2) assms(3)])
    from over_15_overall[OF cN eq ob] o'
    show "\<exists>overall'. update_overall overall normalized = Inr overall' \<and>
               (\<forall>n. overall ''dep_delay_over_15'' = Some (PyInt n) \<longrightarrow>
                  overall' ''dep_delay_over_15'' =
                    Some (PyInt (n + int (length (filter (over_15 ''DEP_DELAY'')
                                              (records normalized))))))"
      by blast
  qed
qed

lemma threshold_groups:
  "map (group_key [''month'']) (key_rows [''month''] (records threshold_normalized))
     = [[Period 2024 3], [Period 2024 3]]"
  "length (filter (over_15 ''ARR_DELAY'')
      (group_rows [''month''] (records threshold_normalized) [Period 2024 3])) = 1"
  "length (filter (over_15 ''ARR_DELAY'') (records threshold_normalized)) = 1"
  by code_simp+

lemma complete_march_table: "complete march_table"
proof -
  have "''arr_delay_over_15'' \<in> set METRIC_FIELDS"
    by (simp add: METRIC_FIELDS_def BASE_METRIC_FIELDS_def)
  then have "dom (new_stats(''arr_delay_over_15'' \<mapsto> PyInt 4)) = set METRIC_FIELDS"
    by (simp only: dom_fun_upd dom_new_stats option.distinct if_False insert_absorb)
  then show ?thesis
    by (simp add: complete_def march_table_def)
qed

text \<open>An instance: of two flights in March 2024, the one delayed by exactly 15 is not
  counted and the one delayed by 15.01 is: the count of the month goes from 4 to 5, and
  the count of a new overall record from 0 to 1.\<close>

theorem over_15_strict_witness:
  "preprocess_chunk (\<lambda>r. 0) threshold_chunk = Inr threshold_normalized \<and>
   records threshold_normalized ! 0 \<in> set (records threshold_normalized) \<and>
   records threshold_normalized ! 1 \<in> set (records threshold_normalized) \<and>
   complete march_table \<and> dom new_stats = set METRIC_FIELDS \<and>
   ''ARR_DELAY'' \<in> set (columns threshold_chunk) \<and>
   cell_at (records threshold_normalized ! 0) ''ARR_DELAY'' = Number 15 \<and>
   cell_at (records threshold_normalized ! 0) ''arr_delay_over_15'' = Number 0 \<and>
   \<not> over_15 ''ARR_DELAY'' (records threshold_normalized ! 0) \<and>
   cell_at (records threshold_normalized ! 1) ''ARR_DELAY'' = Number (1501 / 100) \<and>
   cell_at (records threshold_normalized ! 1) ''arr_delay_over_15'' = Number 1 \<and>
   over_15 ''ARR_DELAY'' (records threshold_normalized ! 1) \<and>
   [Period 2024 3] \<in> group_key [''month''] ` set (key_rows [''month''] (records threshold_normalized)) \<and>
   table_get march_table [Period 2024 3] ''arr_delay_over_15'' = Some (PyInt 4) \<and>
   (\<exists>table'. update_table march_table
                (groupby_agg threshold_normalized [''month''] (build_agg_spec threshold_normalized))
                = Inr table' \<and>
      (\<exists>stats. map_of table' [Period 2024 3] = Some stats \<and>
                stats ''arr_delay_over_15'' = Some (PyInt 5))) \<and>
   new_stats ''arr_delay_over_15'' = Some (PyInt 0) \<and>
   (\<exists>overall'. update_overall new_stats threshold_normalized = Inr overall' \<and>
                overall' ''arr_delay_over_15'' = Some (PyInt 1))"
proof -
  let ?r0 = "records threshold_normalized ! 0" and ?r1 = "records threshold_normalized ! 1"
  let ?keys = "group_key [''month''] ` set (key_rows [''month''] (records threshold_normalized))"
  have h: "preprocess_chunk (\<lambda>r. 0) threshold_chunk = Inr threshold_normalized"
    unfolding threshold_normalized_def
    by (rule preprocess_Inr) (simp add: threshold_chunk_def)
  have c: "''ARR_DELAY'' \<in> set (columns threshold_chunk)"
    by (simp add: threshold_chunk_def)
  have r0: "cell_at ?r0 ''ARR_DELAY'' = Number 15 \<and> ?r0 \<in> set (records threshold_normalized)"
    using col_nth[OF threshold_value(1), of 0] by simp
  have r1: "cell_at ?r1 ''ARR_DELAY'' = Number (1501 / 100) \<and>
      ?r1 \<in> set (records threshold_normalized)"
    using col_nth[OF threshold_value(1), of 1] by simp
  note ct = complete_march_table
  note dn = dom_new_stats
  note T0 = over_15_strict[OF h conjunct2[OF r0] ct dn, of "[''month'']"]
  note T1 = over_15_strict[OF h conjunct2[OF r1] ct dn, of "[''month'']"]
  from T0 c
  have "\<forall>x. cell_at ?r0 ''ARR_DELAY'' = Number x \<longrightarrow>
      cell_at ?r0 ''arr_delay_over_15'' = Number (if 15 < x then 1 else 0) \<and>
      (over_15 ''ARR_DELAY'' ?r0 \<longleftrightarrow> 15 < x)"
    by blast
  with r0 have v0: "cell_at ?r0 ''arr_delay_over_15'' = Number (if 15 < (15::rat) then 1 else 0) \<and>
      (over_15 ''ARR_DELAY'' ?r0 \<longleftrightarrow> 15 < (15::rat))"
    by blast
  from T1 c
  have "\<forall>x. cell_at ?r1 ''ARR_DELAY'' = Number x \<longrightarrow>
      cell_at ?r1 ''arr_delay_over_15'' = Number (if 15 < x then 1 else 0) \<and>
      (over_15 ''ARR_DELAY'' ?r1 \<longleftrightarrow> 15 < x)"
    by blast
  with r1 have v1: "cell_at ?r1 ''arr_delay_over_15''
        = Number (if 15 < (1501 / 100 :: rat) then 1 else 0) \<and>
      (over_15 ''ARR_DELAY'' ?r1 \<longleftrightarrow> 15 < (1501 / 100 :: rat))"
    by blast
  have "?keys = set (map (group_key [''month'']) (key_rows [''month''] (records threshold_normalized)))"
    by simp
  then have key: "[Period 2024 3] \<in> ?keys"
    by (simp only: threshold_groups(1)) simp
  have tg: "table_get march_table [Period 2024 3] ''arr_delay_over_15'' = Some (PyInt 4)"
    by (simp add: table_get_def march_table_def)
  have ns: "new_stats ''arr_delay_over_15'' = Some (PyInt 0)"
    by (simp add: new_stats_apply over_not_sum METRIC_FIELDS_def BASE_METRIC_FIELDS_def)
  from T1 c obtain table' where
    u: "update_table march_table
          (groupby_agg threshold_normalized [''month''] (build_agg_spec threshold_normalized))
        = Inr table'"
    and g: "\<forall>k \<in> ?keys. \<exists>stats. map_of table' k = Some stats \<and>
        (\<forall>n. table_get march_table k ''arr_delay_over_15'' = Some (PyInt n) \<longrightarrow>
           stats ''arr_delay_over_15'' =
             Some (PyInt (n + int (length (filter (over_15 ''ARR_DELAY'')
                                       (group_rows [''month''] (records threshold_normalized) k))))))"
    by blast
  from g key obtain stats where
    s: "map_of table' [Period 2024 3] = Some stats"
    and sn: "\<forall>n. table_get march_table [Period 2024 3] ''arr_delay_over_15'' = Some (PyInt n) \<longrightarrow>
        stats ''arr_delay_over_15'' =
          Some (PyInt (n + int (length (filter (over_15 ''ARR_DELAY'')
              (group_rows [''month''] (records threshold_normalized) [Period 2024 3])))))"
    by blast
  from sn tg have "stats ''arr_delay_over_15'' =
      Some (PyInt (4 + int (length (filter (over_15 ''ARR_DELAY'')
              (group_rows [''month''] (records threshold_normalized) [Period 2024 3])))))"
    by blast
  then have s5: "stats ''arr_delay_over_15'' = Some (PyInt 5)"
    by (simp add: threshold_groups(2))
  from u s s5 have tab: "\<exists>table'. update_table march_table
                (groupby_agg threshold_normalized [''month''] (build_agg_spec threshold_normalized))
                = Inr table' \<and>
      (\<exists>stats. map_of table' [Period 2024 3] = Some stats \<and>
                stats ''arr_delay_over_15'' = Some (PyInt 5))"
    by blast
  from T1 c obtain overall' where
    ou: "update_overall new_stats threshold_normalized = Inr overall'"
    and on: "\<forall>n. new_stats ''arr_delay_over_15'' = Some (PyInt n) \<longrightarrow>
        overall' ''arr_delay_over_15'' =
          Some (PyInt (n + int (length (filter (over_15 ''ARR_DELAY'') (records threshold_normalized)))))"
    by blast
  from on ns have "overall' ''arr_delay_over_15'' =
      Some (PyInt (0 + int (length (filter (over_15 ''ARR_DELAY'') (records threshold_normalized)))))"
    by blast
  then have "overall' ''arr_delay_over_15'' = Some (PyInt 1)"
    by (simp add: threshold_groups(3))
  with ou have ov: "\<exists>overall'. update_overall new_stats threshold_normalized = Inr overall' \<and>
                overall' ''arr_delay_over_15'' = Some (PyInt 1)"
    by blast
  from v0 have w0: "cell_at ?r0 ''arr_delay_over_15'' = Number 0" "\<not> over_15 ''ARR_DELAY'' ?r0"
    by simp_all
  from v1 have w1: "cell_at ?r1 ''arr_delay_over_15'' = Number 1" "over_15 ''ARR_DELAY'' ?r1"
    by simp_all
  show ?thesis
    by (intro conjI h conjunct2[OF r0] conjunct2[OF r1] ct dn c conjunct1[OF r0] w0 conjunct1[OF r1]
        w1 key tg tab ns ov)
qed

subsection \<open>Rows without a date\<close>

lemma valid_rows_idem: "valid_rows (chunk\<lparr>records := valid_rows chunk\<rparr>) = valid_rows chunk"
  by (simp add: valid_rows_def)

lemma dated_valid: "dated (chunk\<lparr>records := valid_rows chunk\<rparr>) = dated chunk"
  unfolding dated_eq by (simp add: valid_rows_idem)

lemma preprocess_valid:
  "preprocess_chunk overflow (chunk\<lparr>records := valid_rows chunk\<rparr>) = preprocess_chunk overflow chunk"
  by (simp add: preprocess_chunk_eq dated_valid)

lemma length_normalized:
  assumes "preprocess_chunk overflow chunk = Inr N"
  shows "length (records N) = length (valid_rows chunk)"
proof -
  from assms have N: "N = fold cause_column (map fst DELAY_CAUSE_COLUMNS)
            (flag_column overflow ''DIVERTED'' (flag_column overflow ''CANCELLED''
              (delay_columns ''DEP_DELAY'' ''dep_delay_over_15''
                (delay_columns ''ARR_DELAY'' ''arr_delay_over_15'' (dated chunk)))))"
    by (auto simp: preprocess_chunk_eq split: if_splits)
  show ?thesis
    unfolding N
    by (simp add: length_fold_cause length_flag_column length_delay_columns records_dated)
qed

lemma normalized_date:
  assumes "preprocess_chunk overflow chunk = Inr N"
  shows "col N ''FL_DATE'' = map (\<lambda>r. coerce_datetime (cell_at r ''FL_DATE'')) (valid_rows chunk)"
proof -
  from assms have N: "N = fold cause_column (map fst DELAY_CAUSE_COLUMNS)
            (flag_column overflow ''DIVERTED'' (flag_column overflow ''CANCELLED''
              (delay_columns ''DEP_DELAY'' ''dep_delay_over_15''
                (delay_columns ''ARR_DELAY'' ''arr_delay_over_15'' (dated chunk)))))"
    by (auto simp: preprocess_chunk_eq split: if_splits)
  have d: "col (dated chunk) ''FL_DATE''
      = map (\<lambda>r. coerce_datetime (cell_at r ''FL_DATE'')) (valid_rows chunk)"
    by (simp add: col_def records_dated cell_at_def comp_def)
  have nc: "''FL_DATE'' \<notin> set (map fst DELAY_CAUSE_COLUMNS)"
    by (simp add: DELAY_CAUSE_COLUMNS_def)
  show ?thesis
    unfolding N using nc
    by (simp add: col_fold_cause col_flag_column col_delay_columns d)
qed

lemma valid_stamp:
  "r \<in> set (valid_rows chunk) \<Longrightarrow> \<exists>y m d. coerce_datetime (cell_at r ''FL_DATE'') = Stamp y m d"
  by (cases "cell_at r ''FL_DATE''") (simp_all add: valid_rows_def)

text \<open>
  C6. Rows whose date cannot be read are dropped silently: the normaliser does not fail
  on them, every row of the normalised chunk has a date, and the chunk has the same
  effect on the whole state (the four tables, the overall record and the metrics seen) as
  the chunk without these rows.
\<close>

theorem unparsable_dates_dropped:
  "(''FL_DATE'' \<in> set (columns chunk) \<longrightarrow>
      (\<exists>normalized. preprocess_chunk overflow chunk = Inr normalized \<and>
         length (records normalized) = length (valid_rows chunk) \<and>
         col normalized ''FL_DATE'' =
           map (\<lambda>r. coerce_datetime (cell_at r ''FL_DATE'')) (valid_rows chunk) \<and>
         (\<forall>v \<in> set (col normalized ''FL_DATE''). \<exists>y m d. v = Stamp y m d))) \<and>
   valid_rows chunk = filter (\<lambda>r. \<exists>y m d. cell_at r ''FL_DATE'' = Stamp y m d) (records chunk) \<and>
   preprocess_chunk overflow (chunk\<lparr>records := valid_rows chunk\<rparr>) = preprocess_chunk overflow chunk \<and>
   process_chunk overflow st (chunk\<lparr>records := valid_rows chunk\<rparr>) = process_chunk overflow st chunk"
proof (intro conjI impI)
  assume c: "''FL_DATE'' \<in> set (columns chunk)"
  let ?N = "projr (preprocess_chunk overflow chunk)"
  have N: "preprocess_chunk overflow chunk = Inr ?N" by (rule preprocess_Inr[OF c])
  have "\<forall>v \<in> set (col ?N ''FL_DATE''). \<exists>y m d. v = Stamp y m d"
    unfolding normalized_date[OF N] using valid_stamp[of _ chunk] by auto
  with N length_normalized[OF N] normalized_date[OF N]
  show "\<exists>normalized. preprocess_chunk overflow chunk = Inr normalized \<and>
         length (records normalized) = length (valid_rows chunk) \<and>
         col normalized ''FL_DATE'' =
           map (\<lambda>r. coerce_datetime (cell_at r ''FL_DATE'')) (valid_rows chunk) \<and>
         (\<forall>v \<in> set (col normalized ''FL_DATE''). \<exists>y m d. v = Stamp y m d)"
    by blast
next
  have "(\<not> isna (coerce_datetime v)) = (\<exists>y m d. v = Stamp y m d)" for v
    by (cases v) simp_all
  then show "valid_rows chunk = filter (\<lambda>r. \<exists>y m d. cell_at r ''FL_DATE'' = Stamp y m d) (records chunk)"
    by (simp add: valid_rows_def)
next
  show "preprocess_chunk overflow (chunk\<lparr>records := valid_rows chunk\<rparr>) = preprocess_chunk overflow chunk"
    by (rule preprocess_valid)
next
  show "process_chunk overflow st (chunk\<lparr>records := valid_rows chunk\<rparr>) = process_chunk overflow st chunk"
    by (simp add: process_chunk_def preprocess_valid)
qed

lemma undated_value:
  "map (\<lambda>r. cell_at r ''ARR_DELAY'') (valid_rows undated_chunk) = [Number 5]"
  "length (records (projr (preprocess_chunk (\<lambda>r. 0) undated_chunk))) = 1"
  "overall_stats (projr (process_chunk (\<lambda>r. 0) initial_state undated_chunk)) ''flights''
     = Some (PyInt 1)"
  "overall_stats (projr (process_chunk (\<lambda>r. 0) initial_state undated_chunk)) ''arr_delay_over_15''
     = Some (PyInt 0)"
  "overall_stats (projr (process_chunk (\<lambda>r. 0) initial_state undated_chunk)) ''cancelled''
     = Some (PyInt 0)"
  "map fst (carrier_stats (projr (process_chunk (\<lambda>r. 0) initial_state undated_chunk)))
     = [[Text ''AA'']]"
  "table_get (carrier_stats (projr (process_chunk (\<lambda>r. 0) initial_state undated_chunk)))
     [Text ''AA''] ''flights'' = Some (PyInt 1)"
  "isl (process_chunk (\<lambda>r. 0) initial_state undated_chunk) = False"
  by code_simp+

text \<open>An instance: of the two flights of \<open>undated_chunk\<close> only the first is counted.\<close>

theorem unparsable_dates_dropped_witness:
  "''FL_DATE'' \<in> set (columns undated_chunk) \<and>
   map (\<lambda>r. cell_at r ''ARR_DELAY'') (records undated_chunk) = [Number 5, Number 90] \<and>
   map (\<lambda>r. cell_at r ''ARR_DELAY'') (valid_rows undated_chunk) = [Number 5] \<and>
   (\<exists>normalized. preprocess_chunk (\<lambda>r. 0) undated_chunk = Inr normalized \<and>
      length (records normalized) = 1) \<and>
   process_chunk (\<lambda>r. 0) initial_state (undated_chunk\<lparr>records := valid_rows undated_chunk\<rparr>)
     = process_chunk (\<lambda>r. 0) initial_state undated_chunk \<and>
   \<not> isl (process_chunk (\<lambda>r. 0) initial_state undated_chunk) \<and>
   overall_stats (projr (process_chunk (\<lambda>r. 0) initial_state undated_chunk)) ''flights''
     = Some (PyInt 1) \<and>
   overall_stats (projr (process_chunk (\<lambda>r. 0) initial_state undated_chunk)) ''cancelled''
     = Some (PyInt 0) \<and>
   table_get (carrier_stats (projr (process_chunk (\<lambda>r. 0) initial_state undated_chunk)))
     [Text ''AA''] ''flights'' = Some (PyInt 1)"
proof -
  have c: "''FL_DATE'' \<in> set (columns undated_chunk)"
    by (simp add: undated_chunk_def)
  note T = unparsable_dates_dropped[of undated_chunk "\<lambda>r. 0" initial_state]
  from T c obtain normalized where
    "preprocess_chunk (\<lambda>r. 0) undated_chunk = Inr normalized"
    "length (records normalized) = length (valid_rows undated_chunk)"
    by blast
  moreover have "length (valid_rows undated_chunk) = 1"
    using arg_cong[OF undated_value(1), of length] by simp
  ultimately have n: "\<exists>normalized. preprocess_chunk (\<lambda>r. 0) undated_chunk = Inr normalized \<and>
      length (records normalized) = 1"
    by simp
  have a: "map (\<lambda>r. cell_at r ''ARR_DELAY'') (records undated_chunk) = [Number 5, Number 90]"
    by (simp add: undated_chunk_def cell_at_def)
  from T have p: "process_chunk (\<lambda>r. 0) initial_state (undated_chunk\<lparr>records := valid_rows undated_chunk\<rparr>)
     = process_chunk (\<lambda>r. 0) initial_state undated_chunk"
    by blast
  have e: "\<not> isl (process_chunk (\<lambda>r. 0) initial_state undated_chunk)"
    by (simp only: undated_value(8)) simp
  show ?thesis
    by (intro conjI c a undated_value(1) n p e undated_value(3) undated_value(5) undated_value(7))
qed

subsection \<open>The boundary scenario\<close>

lemma scenario_runs: "\<not> isl (process_chunk overflow initial_state scenario_chunk)"
  by code_simp

lemma scenario_monthly:
  "rows_at [''month'', ''flights'', ''arr_delay_count'', ''arr_delay_sum'', ''arr_delay_over_15'',
            ''cancelled'']
     (enrich_metrics (finalize_table (monthly_stats (scenario_state overflow)) [''month''])) =
     [[Plain (Period 2024 1), Plain (Number 2), Plain (Number 1), Plain (Number 20),
       Plain (Number 1), Plain (Number 1)],
      [Plain (Period 2024 2), Plain (Number 1), Plain (Number 1), Plain (Number 10),
       Plain (Number 0), Plain (Number 0)]]"
  by code_simp

lemma scenario_carrier:
  "rows_at [''OP_CARRIER'', ''on_time_rate'']
     (enrich_metrics (finalize_table (carrier_stats (scenario_state overflow)) [''OP_CARRIER''])) =
     [[Plain (Text ''AA''), Plain (Number 0)], [Plain (Text ''DL''), Plain (Number 1)]]"
  by code_simp

lemma scenario_overall:
  "overall_cancellation_rate (metrics_present (scenario_state overflow))
     (overall_stats (scenario_state overflow)) = Some (1 / 3)"
  by code_simp

text \<open>
  C2. The boundary scenario: the loop body runs on the three flights without an error; the
  enriched monthly table has the key 2024-01 with 2 flights, 1 known arrival delay, the
  arrival-delay sum 20, 1 arrival over 15 and 1 cancellation, and the key 2024-02 with 1
  flight, 1 known arrival delay, the sum 10, no arrival over 15 and no cancellation; the
  on-time rate is 0 for the carrier AA and 1 for DL; the overall cancellation rate is 1/3.
\<close>

theorem boundary_scenario:
  "\<not> isl (process_chunk overflow initial_state scenario_chunk) \<and>
   rows_at [''month'', ''flights'', ''arr_delay_count'', ''arr_delay_sum'', ''arr_delay_over_15'',
            ''cancelled'']
     (enrich_metrics (finalize_table (monthly_stats (scenario_state overflow)) [''month''])) =
     [[Plain (Period 2024 1), Plain (Number 2), Plain (Number 1), Plain (Number 20),
       Plain (Number 1), Plain (Number 1)],
      [Plain (Period 2024 2), Plain (Number 1), Plain (Number 1), Plain (Number 10),
       Plain (Number 0), Plain (Number 0)]] \<and>
   rows_at [''OP_CARRIER'', ''on_time_rate'']
     (enrich_metrics (finalize_table (carrier_stats (scenario_state overflow)) [''OP_CARRIER''])) =
     [[Plain (Text ''AA''), Plain (Number 0)], [Plain (Text ''DL''), Plain (Number 1)]] \<and>
   overall_cancellation_rate (metrics_present (scenario_state overflow))
     (overall_stats (scenario_state overflow)) = Some (1 / 3)"
  by (intro conjI scenario_runs scenario_monthly scenario_carrier scenario_overall)

end
